theory Spec2Isabelle
  imports Complex_Main "HOL-Library.Word"
begin

unbundle bit_operations_syntax

section \<open>Python floats\<close>

text \<open>
  A finite Python float is the rational number it denotes. Every float operation of the
  source (\<open>float(text)\<close>, \<open>*\<close>, \<open>+\<close>, \<open>-\<close>, \<open>/\<close> on prices) is the exact operation
  followed by \<open>binary64\<close>, the IEEE-754 rounding to the nearest number with a 53-bit
  significand, ties to the even significand. The exponent range is not bounded here:
  the model is exact for results of magnitude between \<open>2 powi (-1022)\<close> and
  \<open>2 powi 1024\<close>, and has no infinities and no NaN.

  \<open>expo x\<close> is the binary exponent of a positive \<open>x\<close>: \<open>2 powi expo x \<le> x < 2 powi (expo x + 1)\<close>.
\<close>

function expo_up :: "rat \<Rightarrow> nat" where
  "expo_up x = (if x < 2 then 0 else Suc (expo_up (x / 2)))"
  by pat_completeness auto
termination
proof (relation "measure (\<lambda>x. nat \<lfloor>x\<rfloor>)")
  show "wf (measure (\<lambda>x::rat. nat \<lfloor>x\<rfloor>))" by simp
next
  fix x :: rat
  assume a: "\<not> x < 2"
  have k: "1 \<le> \<lfloor>x\<rfloor>" using a by linarith
  then have "(1::rat) \<le> of_int \<lfloor>x\<rfloor>" by linarith
  moreover have "x < of_int \<lfloor>x\<rfloor> + 1" by linarith
  ultimately have "x / 2 < of_int \<lfloor>x\<rfloor>" by linarith
  then have "\<lfloor>x / 2\<rfloor> < \<lfloor>x\<rfloor>" by (simp add: floor_less_iff)
  then show "(x / 2, x) \<in> measure (\<lambda>x. nat \<lfloor>x\<rfloor>)" using k by simp
qed

function expo_dn :: "rat \<Rightarrow> nat" where
  "expo_dn x = (if x \<le> 0 \<or> 1 \<le> x then 0 else Suc (expo_dn (2 * x)))"
  by pat_completeness auto
termination
proof (relation "measure (\<lambda>x. nat \<lfloor>1 / x\<rfloor>)")
  show "wf (measure (\<lambda>x::rat. nat \<lfloor>1 / x\<rfloor>))" by simp
next
  fix x :: rat
  assume a: "\<not> (x \<le> 0 \<or> 1 \<le> x)"
  then have p: "0 < x" "x < 1" by auto
  define y where "y = 1 / x"
  have y: "1 \<le> y" using p by (simp add: y_def)
  have k: "1 \<le> \<lfloor>y\<rfloor>" using y by linarith
  then have "(1::rat) \<le> of_int \<lfloor>y\<rfloor>" by linarith
  moreover have "y < of_int \<lfloor>y\<rfloor> + 1" by linarith
  ultimately have "y / 2 < of_int \<lfloor>y\<rfloor>" by linarith
  then have h: "\<lfloor>y / 2\<rfloor> < \<lfloor>y\<rfloor>" by (simp add: floor_less_iff)
  have e: "1 / (2 * x) = y / 2" by (simp add: y_def)
  have "\<lfloor>1 / (2 * x)\<rfloor> < \<lfloor>y\<rfloor>" unfolding e by (rule h)
  then show "(2 * x, x) \<in> measure (\<lambda>x. nat \<lfloor>1 / x\<rfloor>)"
    using k unfolding y_def by simp
qed

declare expo_up.simps [simp del]
declare expo_dn.simps [simp del]

definition expo :: "rat \<Rightarrow> int" where
  "expo x = (if 1 \<le> x then int (expo_up x) else - int (expo_dn x))"

definition round_half_even :: "rat \<Rightarrow> int" where
  "round_half_even r =
     (let f = \<lfloor>r\<rfloor>; d = r - of_int f
      in if d < 1 / 2 then f else if 1 / 2 < d then f + 1
         else if even f then f else f + 1)"

definition binary64 :: "rat \<Rightarrow> rat" where
  "binary64 x =
     (if x = 0 then 0
      else let u = 2 powi (expo \<bar>x\<bar> - 52)
           in sgn x * (of_int (round_half_even (\<bar>x\<bar> / u)) * u))"

text \<open>\<open>int(x)\<close> on a float truncates toward zero.\<close>

definition py_int :: "rat \<Rightarrow> int" where
  "py_int x = (if 0 \<le> x then \<lfloor>x\<rfloor> else \<lceil>x\<rceil>)"

section \<open>Python values, lists and errors\<close>

datatype error =
    TypeError | ValueError | IndexError | KeyError | AttributeError | RequestException

text \<open>
  An argument that the feed or a caller hands over is a number or a string. A string is
  represented by what \<open>float\<close> makes of its text: \<open>Text (Some q)\<close> is a string whose
  text is a decimal numeral denoting \<open>q\<close> (\<open>"100.50"\<close> is \<open>Text (Some (201 / 2))\<close>), and
  \<open>Text None\<close> is a string on which \<open>float\<close> raises ValueError.
\<close>

datatype pyval = Num rat | Text "rat option"

fun to_float :: "pyval \<Rightarrow> rat option" where
  "to_float (Num q) = Some (binary64 q)"
| "to_float (Text None) = None"
| "to_float (Text (Some q)) = Some (binary64 q)"

text \<open>List indexing as Python does it: a negative index counts from the end.\<close>

definition py_index :: "nat \<Rightarrow> int \<Rightarrow> nat option" where
  "py_index len i =
     (if 0 \<le> i then (if i < int len then Some (nat i) else None)
      else if - int len \<le> i then Some (nat (int len + i)) else None)"

definition py_get :: "'a list \<Rightarrow> int \<Rightarrow> error + 'a" where
  "py_get xs i =
     (case py_index (length xs) i of None \<Rightarrow> Inl IndexError | Some j \<Rightarrow> Inr (xs ! j))"

definition py_set :: "'a list \<Rightarrow> int \<Rightarrow> 'a \<Rightarrow> error + 'a list" where
  "py_set xs i v =
     (case py_index (length xs) i of None \<Rightarrow> Inl IndexError | Some j \<Rightarrow> Inr (xs[j := v]))"

text \<open>A \<open>for\<close> loop over a list of indices whose body may raise.\<close>

fun for_loop :: "('s \<Rightarrow> nat \<Rightarrow> error + 's) \<Rightarrow> nat list \<Rightarrow> 's \<Rightarrow> error + 's" where
  "for_loop body [] s = Inr s"
| "for_loop body (i # is) s =
     (case body s i of Inl e \<Rightarrow> Inl e | Inr s' \<Rightarrow> for_loop body is s')"

section \<open>OrderBook.py\<close>

text \<open>
  Volumes are kept as the rationals they denote and are added without rounding: the
  rounding of the additions on volumes is not part of this model. Prices and the
  indices computed from them are rounded as Python rounds them.
\<close>

record order_book =
  market_price :: rat
  price_cap :: rat
  price_points :: nat
  volume_seg_tree :: "rat list"
  currency :: string

definition currencies :: "string list" where
  "currencies = [''BTC-USD'', ''BCH-USD'', ''ETH-USD'', ''LTC-USD'']"

text \<open>
  \<open>OrderBook.__init__\<close>, for a numeric \<open>price_cap\<close>. \<open>int(price_cap * 100)\<close> is taken
  on the float product, which is the integer product for every integer cap below
  \<open>2 ^ 53 / 100\<close>.
\<close>

definition new_order_book :: "rat \<Rightarrow> string \<Rightarrow> error + order_book" where
  "new_order_book cap cur =
     (if cap \<le> 0 then Inl ValueError
      else if cur \<notin> set currencies then Inl ValueError
      else let n = nat (py_int (binary64 (cap * 100)))
           in Inr \<lparr>market_price = 0, price_cap = cap, price_points = n,
                   volume_seg_tree = replicate (2 * n) 0, currency = cur\<rparr>)"

definition valid_number :: "pyval \<Rightarrow> bool" where
  "valid_number number =
     (case number of Num _ \<Rightarrow> True
      | Text _ \<Rightarrow> (case to_float number of None \<Rightarrow> False | Some _ \<Rightarrow> True))"

definition price_under_cap :: "order_book \<Rightarrow> rat \<Rightarrow> bool" where
  "price_under_cap b price = (if price > price_cap b then False else True)"

definition valid_price :: "order_book \<Rightarrow> pyval \<Rightarrow> bool" where
  "valid_price b price =
     (if \<not> valid_number price then False
      else case to_float price of
             None \<Rightarrow> False
           | Some p \<Rightarrow> if p \<le> 0 then False else price_under_cap b p)"

definition valid_volume :: "pyval \<Rightarrow> bool" where
  "valid_volume volume =
     (if \<not> valid_number volume then False
      else case to_float volume of
             None \<Rightarrow> False
           | Some v \<Rightarrow> if v < 0 then False else True)"

definition valid_order :: "order_book \<Rightarrow> pyval \<Rightarrow> pyval \<Rightarrow> bool" where
  "valid_order b price volume = (valid_price b price \<and> valid_volume volume)"

text \<open>
  The loop of \<open>update_volume\<close> that recomputes the parents:
  \<open>while price_index > 1: tree[price_index >> 1] = tree[price_index] + tree[price_index ^ 1];
  price_index >>= 1\<close>.
\<close>

function update_parents :: "nat \<Rightarrow> rat list \<Rightarrow> error + rat list" where
  "update_parents price_index t =
     (if 1 < price_index then
        (case py_get t (int price_index) of
           Inl e \<Rightarrow> Inl e
         | Inr a \<Rightarrow>
            (case py_get t (int (price_index XOR 1)) of
               Inl e \<Rightarrow> Inl e
             | Inr c \<Rightarrow>
                (case py_set t (int (drop_bit 1 price_index)) (a + c) of
                   Inl e \<Rightarrow> Inl e
                 | Inr t' \<Rightarrow> update_parents (drop_bit 1 price_index) t')))
      else Inr t)"
  by pat_completeness auto
termination
  by (relation "measure fst") (auto simp: drop_bit_eq_div)

definition update_volume :: "order_book \<Rightarrow> pyval \<Rightarrow> pyval \<Rightarrow> error + order_book" where
  "update_volume b price volume =
     (if valid_order b price volume then
        (case (to_float price, to_float volume) of
           (Some p, Some v) \<Rightarrow>
             (let price_index = int (price_points b) + py_int (binary64 (p * 100)) - 1
              in case py_set (volume_seg_tree b) price_index v of
                   Inl e \<Rightarrow> Inl e
                 | Inr t \<Rightarrow>
                    (case update_parents (nat price_index) t of
                       Inl e \<Rightarrow> Inl e
                     | Inr t' \<Rightarrow> Inr (b\<lparr>volume_seg_tree := t'\<rparr>)))
         | _ \<Rightarrow> Inl ValueError)
      else Inr b)"

definition update_market_price :: "order_book \<Rightarrow> pyval \<Rightarrow> error + order_book" where
  "update_market_price b price =
     (if valid_price b price then
        (case to_float price of
           Some p \<Rightarrow> Inr (b\<lparr>market_price := p\<rparr>)
         | None \<Rightarrow> Inl ValueError)
      else Inr b)"

text \<open>
  The loop of \<open>get_volume_in_range\<close>. A skipped \<open>volume_sum += ...\<close> is the addition
  of 0.
\<close>

function sum_loop :: "rat list \<Rightarrow> int \<Rightarrow> int \<Rightarrow> rat \<Rightarrow> error + rat" where
  "sum_loop t left_index right_index volume_sum =
     (if left_index < right_index then
        (case (if left_index AND 1 \<noteq> 0 then py_get t left_index else Inr 0) of
           Inl e \<Rightarrow> Inl e
         | Inr a \<Rightarrow>
            (case (if right_index AND 1 \<noteq> 0 then py_get t (right_index - 1) else Inr 0) of
               Inl e \<Rightarrow> Inl e
             | Inr c \<Rightarrow>
                sum_loop t
                  (drop_bit 1 (if left_index AND 1 \<noteq> 0 then left_index + 1 else left_index))
                  (drop_bit 1 (if right_index AND 1 \<noteq> 0 then right_index - 1 else right_index))
                  (volume_sum + a + c)))
      else Inr volume_sum)"
  by pat_completeness auto
termination
proof (relation "measure (\<lambda>(t, l, r, s). nat (r - l))")
  show "wf (measure (\<lambda>(t :: rat list, l :: int, r :: int, s :: rat). nat (r - l)))" by simp
next
  fix t :: "rat list" and l r :: int and s a c :: rat
  assume lr: "l < r"
  have "(if r AND 1 \<noteq> 0 then r - 1 else r) div 2 - (if l AND 1 \<noteq> 0 then l + 1 else l) div 2 < r - l"
    using lr by (auto simp: and_one_eq)
  then show "((t, drop_bit 1 (if l AND 1 \<noteq> 0 then l + 1 else l),
               drop_bit 1 (if r AND 1 \<noteq> 0 then r - 1 else r), s + a + c), (t, l, r, s))
             \<in> measure (\<lambda>(t, l, r, s). nat (r - l))"
    using lr by (simp add: drop_bit_eq_div)
qed

definition get_volume_in_range :: "order_book \<Rightarrow> pyval \<Rightarrow> pyval \<Rightarrow> error + rat" where
  "get_volume_in_range b lower_price_bound upper_price_bound =
     (if valid_price b lower_price_bound \<and> valid_price b upper_price_bound then
        (case (to_float lower_price_bound, upper_price_bound) of
           (Some lo, Num hi) \<Rightarrow>
             (let n = of_nat (price_points b);
                  left_index = py_int (binary64 (binary64 (binary64 (lo * 100) - 1) + n));
                  right_index =
                    py_int (binary64 (binary64 (binary64
                      (binary64 (binary64 hi + binary64 (1 / 100)) * 100) - 1) + n))
              in sum_loop (volume_seg_tree b) left_index right_index 0)
         | (Some lo, Text _) \<Rightarrow> Inl TypeError
         | (None, _) \<Rightarrow> Inl ValueError)
      else Inr 0)"

definition get_total_volume :: "order_book \<Rightarrow> error + rat" where
  "get_total_volume b =
     get_volume_in_range b (Num (binary64 (1 / 100)))
       (Num (binary64 (binary64 (price_cap b) - binary64 (1 / 100))))"

definition get_market_price :: "order_book \<Rightarrow> rat" where
  "get_market_price b = market_price b"

definition built :: "order_book \<Rightarrow> error + bool" where
  "built b = (case get_total_volume b of Inl e \<Rightarrow> Inl e | Inr v \<Rightarrow> Inr (v \<noteq> 0))"

text \<open>
  \<open>__gen_vol_array\<close>: one loop over the bid orders and one over the ask orders, on
  the same array. An order is the pair of \<open>order[0]\<close> and \<open>order[1]\<close>.
\<close>

fun fill_orders :: "order_book \<Rightarrow> (pyval \<times> pyval) list \<Rightarrow> rat list \<Rightarrow> error + rat list" where
  "fill_orders b [] volumes = Inr volumes"
| "fill_orders b (order # rest) volumes =
     (if valid_order b (fst order) (snd order) then
        (case (to_float (fst order), to_float (snd order)) of
           (Some p, Some v) \<Rightarrow>
             (case py_set volumes (py_int (binary64 (p * 100)) - 1) v of
                Inl e \<Rightarrow> Inl e
              | Inr volumes' \<Rightarrow> fill_orders b rest volumes')
         | _ \<Rightarrow> Inl ValueError)
      else fill_orders b rest volumes)"

definition gen_vol_array ::
  "order_book \<Rightarrow> (pyval \<times> pyval) list \<Rightarrow> (pyval \<times> pyval) list \<Rightarrow> error + rat list" where
  "gen_vol_array b bid_orders ask_orders =
     (case fill_orders b bid_orders (replicate (price_points b) 0) of
        Inl e \<Rightarrow> Inl e
      | Inr volumes \<Rightarrow> fill_orders b ask_orders volumes)"

text \<open>
  \<open>__build_order_book\<close>: the body of the loop that copies the leaves, and the body of
  the loop that sums the children, \<open>tree[i] = tree[i << 1] + tree[i << 1 | 1]\<close>, which
  runs from \<open>price_points - 1\<close> down to 0.
\<close>

definition copy_leaf :: "nat \<Rightarrow> rat list \<Rightarrow> rat list \<Rightarrow> nat \<Rightarrow> error + rat list" where
  "copy_leaf n volumes t i =
     (case py_get volumes (int i) of
        Inl e \<Rightarrow> Inl e
      | Inr v \<Rightarrow> py_set t (int (n + i)) v)"

definition sum_children :: "rat list \<Rightarrow> nat \<Rightarrow> error + rat list" where
  "sum_children t i =
     (case py_get t (int (push_bit 1 i)) of
        Inl e \<Rightarrow> Inl e
      | Inr a \<Rightarrow>
         (case py_get t (int (push_bit 1 i OR 1)) of
            Inl e \<Rightarrow> Inl e
          | Inr c \<Rightarrow> py_set t (int i) (a + c)))"

definition build_order_book :: "order_book \<Rightarrow> rat list \<Rightarrow> error + order_book" where
  "build_order_book b volumes =
     (case for_loop (copy_leaf (price_points b) volumes) [0..<price_points b]
             (volume_seg_tree b) of
        Inl e \<Rightarrow> Inl e
      | Inr t \<Rightarrow>
         (case for_loop sum_children (rev [0..<price_points b]) t of
            Inl e \<Rightarrow> Inl e
          | Inr t' \<Rightarrow> Inr (b\<lparr>volume_seg_tree := t'\<rparr>)))"

text \<open>\<open>init_book\<close>, on \<open>orders['bids']\<close> and \<open>orders['asks']\<close>.\<close>

definition init_book ::
  "order_book \<Rightarrow> (pyval \<times> pyval) list \<Rightarrow> (pyval \<times> pyval) list \<Rightarrow> error + order_book" where
  "init_book b bids asks =
     (case gen_vol_array b bids asks of
        Inl e \<Rightarrow> Inl e
      | Inr volumes \<Rightarrow> build_order_book b volumes)"

section \<open>JSON values\<close>

text \<open>
  A parsed JSON value. An object is the Python dict that \<open>json.loads\<close> returns: an
  association list with distinct keys, in the order of the text.
\<close>

datatype json =
    JNull
  | JNum rat
  | JStr string
  | JArr "json list"
  | JObj "(string \<times> json) list"

text \<open>
  \<open>query\<close>: the clock readings \<open>time()\<close> and \<open>datetime.utcnow().__str__()\<close> are
  arguments. The percentages are the Python numbers of the list.
\<close>

fun band_loop ::
  "order_book \<Rightarrow> rat \<Rightarrow> rat list \<Rightarrow> rat list \<Rightarrow> rat list \<Rightarrow> error + (rat list \<times> rat list)" where
  "band_loop b price [] buy_vols sell_vols = Inr (buy_vols, sell_vols)"
| "band_loop b price (percent # rest) buy_vols sell_vols =
     (let high = binary64 (price + binary64 (binary64 (price * percent) / 100));
          low = binary64 (price - binary64 (binary64 (price * percent) / 100))
      in case get_volume_in_range b (Num low) (Num price) of
           Inl e \<Rightarrow> Inl e
         | Inr bv \<Rightarrow>
            (case get_volume_in_range b (Num price) (Num high) of
               Inl e \<Rightarrow> Inl e
             | Inr sv \<Rightarrow> band_loop b price rest (buy_vols @ [bv]) (sell_vols @ [sv])))"


section \<open>LoggerHandler.py\<close>

subsection \<open>Dicts, strings and what the feed carries\<close>

definition dict_get :: "(string \<times> 'v) list \<Rightarrow> string \<Rightarrow> error + 'v" where
  "dict_get d k = (case map_of d k of None \<Rightarrow> Inl KeyError | Some v \<Rightarrow> Inr v)"

text \<open>\<open>d[k] = v\<close>: a key that is present keeps its place, a new key goes last.\<close>

fun dict_set :: "(string \<times> 'v) list \<Rightarrow> string \<Rightarrow> 'v \<Rightarrow> (string \<times> 'v) list" where
  "dict_set [] k v = [(k, v)]"
| "dict_set ((k', v') # d) k v = (if k' = k then (k, v) # d else (k', v') # dict_set d k v)"

text \<open>\<open>needle in text\<close> on two strings.\<close>

fun starts_with :: "string \<Rightarrow> string \<Rightarrow> bool" where
  "starts_with [] text = True"
| "starts_with (c # cs) [] = False"
| "starts_with (c # cs) (d # ds) = (c = d \<and> starts_with cs ds)"

fun str_in :: "string \<Rightarrow> string \<Rightarrow> bool" where
  "str_in needle [] = (needle = [])"
| "str_in needle (c # cs) = (starts_with needle (c # cs) \<or> str_in needle cs)"

text \<open>
  The number that \<open>float\<close> reads from a string, for the plain decimal numerals that
  the feed sends: an optional sign, digits, an optional point and digits. On every other
  text the result is None, which stands for ValueError. That is what \<open>float\<close> does on a
  text that is no numeral at all; the numerals that \<open>float\<close> reads beyond the plain
  ones (an exponent, \<open>inf\<close>, \<open>nan\<close>, blanks around the numeral, underscores between
  digits) are not covered: no statement below is about a frame that carries one.
\<close>

definition digit_val :: "char \<Rightarrow> nat option" where
  "digit_val c = map_of (zip ''0123456789'' [0 ..< 10]) c"

fun digits_val :: "string \<Rightarrow> nat \<Rightarrow> nat option" where
  "digits_val [] acc = Some acc"
| "digits_val (c # cs) acc =
     (case digit_val c of None \<Rightarrow> None | Some d \<Rightarrow> digits_val cs (10 * acc + d))"

definition decimal_text :: "string \<Rightarrow> rat option" where
  "decimal_text s =
     (let neg = (case s of c # _ \<Rightarrow> c = CHR ''-'' | [] \<Rightarrow> False);
          body = (case s of c # r \<Rightarrow> if c = CHR ''-'' \<or> c = CHR ''+'' then r else s | [] \<Rightarrow> s);
          ip = takeWhile (\<lambda>c. c \<noteq> CHR ''.'') body;
          fp = drop 1 (dropWhile (\<lambda>c. c \<noteq> CHR ''.'') body)
      in if ip = [] \<and> fp = [] then None
         else case (digits_val ip 0, digits_val fp 0) of
                (Some a, Some f) \<Rightarrow>
                  Some ((if neg then - 1 else 1) * (of_nat a + of_nat f / 10 ^ length fp))
              | _ \<Rightarrow> None)"

text \<open>
  A price or size of a frame as an argument of the order book. On a value that is
  neither a number nor a string, \<open>float\<close> raises TypeError.
\<close>

fun to_pyval :: "json \<Rightarrow> error + pyval" where
  "to_pyval (JNum q) = Inr (Num q)"
| "to_pyval (JStr s) = Inr (Text (decimal_text s))"
| "to_pyval _ = Inl TypeError"

text \<open>\<open>x[i]\<close> and \<open>x[key]\<close> on a JSON value.\<close>

fun json_index :: "json \<Rightarrow> int \<Rightarrow> error + json" where
  "json_index (JArr xs) i = py_get xs i"
| "json_index (JStr s) i = (case py_get s i of Inl e \<Rightarrow> Inl e | Inr c \<Rightarrow> Inr (JStr [c]))"
| "json_index (JObj d) i = Inl KeyError"
| "json_index _ i = Inl TypeError"

fun json_key :: "json \<Rightarrow> string \<Rightarrow> error + json" where
  "json_key (JObj d) k = dict_get d k"
| "json_key _ k = Inl TypeError"

text \<open>\<open>name in data['type']\<close>, for a name that is a string.\<close>

fun name_in :: "string \<Rightarrow> json \<Rightarrow> error + bool" where
  "name_in name (JStr s) = Inr (str_in name s)"
| "name_in name (JArr xs) = Inr (JStr name \<in> set xs)"
| "name_in name (JObj d) = Inr (name \<in> set (map fst d))"
| "name_in name _ = Inl TypeError"

fun to_order :: "json \<Rightarrow> error + (pyval \<times> pyval)" where
  "to_order order =
     (case json_index order 0 of
        Inl e \<Rightarrow> Inl e
      | Inr p \<Rightarrow>
         (case json_index order 1 of
            Inl e \<Rightarrow> Inl e
          | Inr v \<Rightarrow>
             (case to_pyval p of
                Inl e \<Rightarrow> Inl e
              | Inr p' \<Rightarrow> (case to_pyval v of Inl e \<Rightarrow> Inl e | Inr v' \<Rightarrow> Inr (p', v')))))"

fun to_orders :: "json list \<Rightarrow> error + (pyval \<times> pyval) list" where
  "to_orders [] = Inr []"
| "to_orders (x # xs) =
     (case to_order x of
        Inl e \<Rightarrow> Inl e
      | Inr o1 \<Rightarrow> (case to_orders xs of Inl e \<Rightarrow> Inl e | Inr os \<Rightarrow> Inr (o1 # os)))"

fun order_list :: "json \<Rightarrow> error + (pyval \<times> pyval) list" where
  "order_list (JArr xs) = to_orders xs"
| "order_list _ = Inl TypeError"

subsection \<open>GDAXConstants\<close>

text \<open>
  Modelled from the spec: the module GDAXConstants is not among the sources. The message
  kinds are the \<open>type\<close> fields of the spec's section 6, the products are those of its
  subscription request, and the column names are those of the \<open>tickers\<close> table.
\<close>

definition l2update :: string where "l2update = ''l2update''"
definition match_name :: string where "match_name = ''match''"
definition snapshot :: string where "snapshot = ''snapshot''"
definition btc_usd :: string where "btc_usd = ''BTC-USD''"
definition eth_usd :: string where "eth_usd = ''ETH-USD''"
definition ltc_usd :: string where "ltc_usd = ''LTC-USD''"
definition bch_usd :: string where "bch_usd = ''BCH-USD''"

definition const_ticker_columns :: "string list" where
  "const_ticker_columns =
     [''system_time'', ''server_time'', ''product_id'', ''price'', ''open_24h'',
      ''volume_24h'', ''best_bid'', ''best_ask'', ''side'', ''last_size'']"

subsection \<open>The handler\<close>

text \<open>
  The handler's fields, and the two things it does to the outside: \<open>db_rows\<close> lists the
  statements that were committed (path, SQL, row), \<open>slack_posts\<close> the calls of
  \<open>requests.post\<close> (URL, text of the message).
\<close>

record logger_handler =
  post_to_slack :: bool
  slack_url :: string
  last_error :: rat
  percent_ranges :: "rat list"
  product_ids :: "string list"
  order_books :: "(string \<times> order_book) list"
  ticker_columns :: "string list"
  db_rows :: "(string \<times> string \<times> json list option) list"
  slack_posts :: "(string \<times> string) list"

text \<open>
  What a statement does in SQLite: it commits, or \<open>sqlite3.connect\<close> fails (then
  \<open>__create_connection\<close> returns None), or \<open>execute\<close> or \<open>commit\<close> raises
  \<open>sqlite3.Error\<close> with a message. And what \<open>requests.post\<close> does when it is called:
  it returns, or it raises.
\<close>

datatype db_outcome = Committed | ConnectFailed | SqlError string

datatype post_outcome = Posted | PostRaises

text \<open>
  A method of the handler changes the handler and then returns a value or raises: the
  result is the handler as the call leaves it, with \<open>Inr\<close> the value returned or \<open>Inl\<close>
  the exception that leaves the method.
\<close>

definition write_to_slack ::
  "logger_handler \<Rightarrow> post_outcome \<Rightarrow> string \<Rightarrow> logger_handler \<times> (error + unit)" where
  "write_to_slack h post msg =
     (if post_to_slack h then
        (case post of
           Posted \<Rightarrow> (h\<lparr>slack_posts := slack_posts h @ [(slack_url h, msg)]\<rparr>, Inr ())
         | PostRaises \<Rightarrow> (h, Inl RequestException))
      else (h, Inr ()))"

text \<open>
  \<open>__write_to_db\<close>. \<open>now\<close> is what \<open>time()\<close> returns in the test of the rate limit,
  \<open>now'\<close> what it returns in the assignment that follows. With no connection,
  \<open>conn.execute\<close> raises AttributeError, which the \<open>except\<close> clause does not catch; an
  exception of \<open>requests.post\<close> leaves the \<open>except\<close> block as well.
\<close>

definition write_to_db ::
  "logger_handler \<Rightarrow> db_outcome \<Rightarrow> post_outcome \<Rightarrow> rat \<Rightarrow> rat \<Rightarrow> string \<Rightarrow> string
     \<Rightarrow> json list option \<Rightarrow> logger_handler \<times> (error + bool option)" where
  "write_to_db h outcome post now now' path sql row =
     (case outcome of
        Committed \<Rightarrow> (h\<lparr>db_rows := db_rows h @ [(path, sql, row)]\<rparr>, Inr (Some True))
      | ConnectFailed \<Rightarrow> (h, Inl AttributeError)
      | SqlError err \<Rightarrow>
          (if \<not> str_in ''database is locked'' err \<and> \<not> str_in ''UNIQUE'' err then
             (if last_error h \<le> now - 300 then
                (case write_to_slack (h\<lparr>last_error := now'\<rparr>) post
                        (''Something went wrong: '' @ err) of
                   (h', Inl e) \<Rightarrow> (h', Inl e)
                 | (h', Inr _) \<Rightarrow> (h', Inr None))
              else (h, Inr None))
           else (h, Inr None)))"

text \<open>
  \<open>insert_ticker\<close>, on the parsed frame. \<open>system_time\<close> and \<open>server_time\<close> are the two
  clock readings of its first statement.
\<close>

fun filter_columns ::
  "string list \<Rightarrow> (string \<times> json) list \<Rightarrow> string list \<Rightarrow> (string \<times> json) list
     \<Rightarrow> error + (string \<times> json) list" where
  "filter_columns cols d [] fdata = Inr fdata"
| "filter_columns cols d (key # keys) fdata =
     (if key \<in> set cols then
        (case dict_get d key of
           Inl e \<Rightarrow> Inl e
         | Inr v \<Rightarrow> filter_columns cols d keys (dict_set fdata key v))
      else filter_columns cols d keys fdata)"

definition ticker_sql :: string where
  "ticker_sql = ''INSERT INTO tickers VALUES (?, ?, ?, ?, ?, ?, ?, ?, ?, ?)''"

text \<open>
  The two loops of \<open>insert_ticker\<close>. The frame is what \<open>json.loads\<close> returns: for an
  object the loop runs over its keys; for an array or a string it runs over the elements
  or the characters, and \<open>data[key]\<close> raises TypeError for one that is a column name;
  another value cannot be iterated over.
\<close>

definition ticker_row ::
  "logger_handler \<Rightarrow> json \<Rightarrow> rat \<Rightarrow> string \<Rightarrow> error + json list" where
  "ticker_row h data system_time server_time =
     (case data of
        JObj d \<Rightarrow>
          (case filter_columns (ticker_columns h) d (map fst d)
                  [(''system_time'', JNum system_time), (''server_time'', JStr server_time)] of
             Inl e \<Rightarrow> Inl e
           | Inr fdata \<Rightarrow> Inr (map snd fdata))
      | JArr xs \<Rightarrow>
          (if list_ex (\<lambda>x. x \<in> JStr ` set (ticker_columns h)) xs then Inl TypeError
           else Inr [JNum system_time, JStr server_time])
      | JStr text \<Rightarrow>
          (if list_ex (\<lambda>c. [c] \<in> set (ticker_columns h)) text then Inl TypeError
           else Inr [JNum system_time, JStr server_time])
      | _ \<Rightarrow> Inl TypeError)"

definition insert_ticker ::
  "logger_handler \<Rightarrow> json \<Rightarrow> rat \<Rightarrow> string \<Rightarrow> db_outcome \<Rightarrow> post_outcome \<Rightarrow> rat \<Rightarrow> rat
     \<Rightarrow> logger_handler \<times> (error + unit)" where
  "insert_ticker h data system_time server_time outcome post now now' =
     (case ticker_row h data system_time server_time of
        Inl e \<Rightarrow> (h, Inl e)
      | Inr row \<Rightarrow>
         (case write_to_db h outcome post now now' ''tickers.db'' ticker_sql (Some row) of
            (h', Inl e) \<Rightarrow> (h', Inl e)
          | (h', Inr _) \<Rightarrow> (h', Inr ())))"

text \<open>\<open>update_order_book\<close>, on the parsed frame: its three \<open>if\<close> statements in turn.\<close>

definition with_book ::
  "logger_handler \<Rightarrow> json \<Rightarrow> (order_book \<Rightarrow> error + order_book) \<Rightarrow> error + logger_handler" where
  "with_book h product f =
     (case product of
        JStr p \<Rightarrow>
          (if p \<in> set (product_ids h) then
             (case dict_get (order_books h) p of
                Inl e \<Rightarrow> Inl e
              | Inr b \<Rightarrow>
                 (case f b of
                    Inl e \<Rightarrow> Inl e
                  | Inr b' \<Rightarrow> Inr (h\<lparr>order_books := dict_set (order_books h) p b'\<rparr>)))
           else Inr h)
      | _ \<Rightarrow> Inr h)"

text \<open>
  \<open>update_volume\<close> on two values of a frame. \<open>__valid_number\<close> raises TypeError on a value
  that is neither a number nor a string, and \<open>__valid_order\<close> looks at the volume only
  when the price is valid.
\<close>

definition update_volume_json :: "order_book \<Rightarrow> json \<Rightarrow> json \<Rightarrow> error + order_book" where
  "update_volume_json b price volume =
     (case to_pyval price of
        Inl e \<Rightarrow> Inl e
      | Inr p \<Rightarrow>
         if \<not> valid_price b p then Inr b
         else (case to_pyval volume of
                 Inl e \<Rightarrow> Inl e
               | Inr v \<Rightarrow> update_volume b p v))"

definition on_l2update :: "logger_handler \<Rightarrow> json \<Rightarrow> error + logger_handler" where
  "on_l2update h data =
     (case json_key data ''product_id'' of
        Inl e \<Rightarrow> Inl e
      | Inr product \<Rightarrow>
         (case json_key data ''changes'' of
            Inl e \<Rightarrow> Inl e
          | Inr changes \<Rightarrow>
             (case json_index changes 0 of
                Inl e \<Rightarrow> Inl e
              | Inr change \<Rightarrow>
                 (case json_index change 1 of
                    Inl e \<Rightarrow> Inl e
                  | Inr price \<Rightarrow>
                     (case json_index changes 0 of
                        Inl e \<Rightarrow> Inl e
                      | Inr change' \<Rightarrow>
                         (case json_index change' 2 of
                            Inl e \<Rightarrow> Inl e
                          | Inr volume \<Rightarrow>
                             with_book h product
                               (\<lambda>b. update_volume_json b price volume)))))))"

definition on_match :: "logger_handler \<Rightarrow> json \<Rightarrow> error + logger_handler" where
  "on_match h data =
     (case json_key data ''product_id'' of
        Inl e \<Rightarrow> Inl e
      | Inr product \<Rightarrow>
         with_book h product
           (\<lambda>b. case json_key data ''price'' of
                  Inl e \<Rightarrow> Inl e
                | Inr price \<Rightarrow>
                   (case to_pyval price of
                      Inl e \<Rightarrow> Inl e
                    | Inr p \<Rightarrow> update_market_price b p)))"

definition on_snapshot :: "logger_handler \<Rightarrow> json \<Rightarrow> error + logger_handler" where
  "on_snapshot h data =
     (case json_key data ''product_id'' of
        Inl e \<Rightarrow> Inl e
      | Inr product \<Rightarrow>
         with_book h product
           (\<lambda>b. case json_key data ''bids'' of
                  Inl e \<Rightarrow> Inl e
                | Inr bids \<Rightarrow>
                   (case json_key data ''asks'' of
                      Inl e \<Rightarrow> Inl e
                    | Inr asks \<Rightarrow>
                       (case order_list bids of
                          Inl e \<Rightarrow> Inl e
                        | Inr bs \<Rightarrow>
                           (case order_list asks of
                              Inl e \<Rightarrow> Inl e
                            | Inr as \<Rightarrow> init_book b bs as)))))"

definition when_type ::
  "string \<Rightarrow> (logger_handler \<Rightarrow> json \<Rightarrow> error + logger_handler) \<Rightarrow> logger_handler \<Rightarrow> json
     \<Rightarrow> error + logger_handler" where
  "when_type name action h data =
     (case json_key data ''type'' of
        Inl e \<Rightarrow> Inl e
      | Inr ty \<Rightarrow>
         (case name_in name ty of
            Inl e \<Rightarrow> Inl e
          | Inr hit \<Rightarrow> if hit then action h data else Inr h))"

definition update_order_book :: "logger_handler \<Rightarrow> json \<Rightarrow> error + logger_handler" where
  "update_order_book h data =
     (case when_type l2update on_l2update h data of
        Inl e \<Rightarrow> Inl e
      | Inr h1 \<Rightarrow>
         (case when_type match_name on_match h1 data of
            Inl e \<Rightarrow> Inl e
          | Inr h2 \<Rightarrow> when_type snapshot on_snapshot h2 data))"

text \<open>
  The two statements of \<open>__init_database\<close>, with the line breaks and the indentation of
  the source text.
\<close>

definition create_tickers_sql :: string where
  "create_tickers_sql =
     ''CREATE TABLE IF NOT EXISTS tickers\<newline>'' @
     ''            (system_time real PRIMARY KEY, server_time text, product_id text,\<newline>'' @
     ''            price real, open_24h real, volume_24h real, best_bid real,\<newline>'' @
     ''            best_ask real, side text, last_size real);''"

definition create_order_books_sql :: string where
  "create_order_books_sql =
     ''CREATE TABLE IF NOT EXISTS order_books (\<newline>'' @
     ''            system_time real PRIMARY KEY, product_id text,\<newline>'' @
     ''            server_time text, price real, buy_vol_0001 real,\<newline>'' @
     ''            buy_vol_0005 real, buy_vol_0010 real, buy_vol_0050 real,\<newline>'' @
     ''            buy_vol_0100 real, buy_vol_0250 real, buy_vol_0500 real,\<newline>'' @
     ''            buy_vol_1000 real, buy_vol_2500 real, sell_vol_0001 real,\<newline>'' @
     ''            sell_vol_0005 real, sell_vol_0010 real, sell_vol_0050 real,\<newline>'' @
     ''            sell_vol_0100 real, sell_vol_0250 real, sell_vol_0500 real,\<newline>'' @
     ''            sell_vol_1000 real, sell_vol_2500 real, total real); ''"

text \<open>
  The handler as \<open>__init__\<close> leaves it; \<open>now\<close> is the clock at construction.
  \<open>__init__\<close> returns only when both statements of \<open>__init_database\<close> have been
  committed (it raises otherwise), so they are the first two entries of \<open>db_rows\<close>. The
  thread that \<open>__init__\<close> starts is not part of this model.
\<close>

definition new_logger_handler :: "rat \<Rightarrow> error + logger_handler" where
  "new_logger_handler now =
     (case new_order_book 50000 btc_usd of
        Inl e \<Rightarrow> Inl e
      | Inr btc \<Rightarrow>
     (case new_order_book 10000 eth_usd of
        Inl e \<Rightarrow> Inl e
      | Inr eth \<Rightarrow>
     (case new_order_book 5000 ltc_usd of
        Inl e \<Rightarrow> Inl e
      | Inr ltc \<Rightarrow>
     (case new_order_book 20000 bch_usd of
        Inl e \<Rightarrow> Inl e
      | Inr bch \<Rightarrow>
         Inr \<lparr>post_to_slack = False, slack_url = [], last_error = now - 300,
              percent_ranges =
                [binary64 (1 / 100), binary64 (5 / 100), binary64 (1 / 10), binary64 (1 / 2),
                 1, binary64 (5 / 2), 5, 10, 25],
              product_ids = [btc_usd, eth_usd, ltc_usd, bch_usd],
              order_books = [(btc_usd, btc), (eth_usd, eth), (ltc_usd, ltc), (bch_usd, bch)],
              ticker_columns = const_ticker_columns,
              db_rows = [(''tickers.db'', create_tickers_sql, None),
                         (''order_books.db'', create_order_books_sql, None)],
              slack_posts = []\<rparr>))))"

section \<open>What the claims speak of\<close>

text \<open>
  The sum condition at an inner node, and at every inner node of a tree over
  \<open>n\<close> price points.
\<close>

definition node_ok :: "rat list \<Rightarrow> nat \<Rightarrow> bool" where
  "node_ok t i = (t ! i = t ! (2 * i) + t ! (2 * i + 1))"

definition sums_ok :: "nat \<Rightarrow> rat list \<Rightarrow> bool" where
  "sums_ok n t = (\<forall>i. 1 \<le> i \<and> i < n \<longrightarrow> node_ok t i)"

text \<open>The tree has its two cells per price point; the leaves are its upper half.\<close>

definition wf_book :: "order_book \<Rightarrow> bool" where
  "wf_book b = (length (volume_seg_tree b) = 2 * price_points b)"

definition leaves :: "order_book \<Rightarrow> rat list" where
  "leaves b = drop (price_points b) (volume_seg_tree b)"

text \<open>The ticker frame of the feed, with its keys in the order of the interface description.\<close>

definition section6_ticker ::
  "json \<Rightarrow> json \<Rightarrow> json \<Rightarrow> json \<Rightarrow> json \<Rightarrow> json \<Rightarrow> json \<Rightarrow> json \<Rightarrow> json \<Rightarrow> json \<Rightarrow> json" where
  "section6_ticker product tm price best_bid best_ask open_24h volume_24h side last_size sequence =
     JObj [(''type'', JStr ''ticker''), (''product_id'', product), (''time'', tm),
           (''price'', price), (''best_bid'', best_bid), (''best_ask'', best_ask),
           (''open_24h'', open_24h), (''volume_24h'', volume_24h), (''side'', side),
           (''last_size'', last_size), (''sequence'', sequence)]"

declare update_parents.simps [simp del]
declare sum_loop.simps [simp del]

text \<open>The \<open>l2update\<close> frame of the feed, with its list of changes.\<close>

definition l2update_frame :: "json \<Rightarrow> json list \<Rightarrow> json \<Rightarrow> json" where
  "l2update_frame product changes tm =
     JObj [(''type'', JStr ''l2update''), (''product_id'', product),
           (''changes'', JArr changes), (''time'', tm)]"

text \<open>DEF
  A sequence of calls of \<open>__write_to_db\<close>, each with what the database and
  \<open>requests.post\<close> do in it and its two clock readings. A call that raises leaves the
  handler as it is at the raise, and the next call finds it so.
\<close>

type_synonym db_call = "db_outcome \<times> post_outcome \<times> rat \<times> rat \<times> string \<times> string \<times> json list option"

fun write_all :: "logger_handler \<Rightarrow> db_call list \<Rightarrow> logger_handler" where
  "write_all h [] = h"
| "write_all h ((outcome, post, now, now', path, sql, row) # calls) =
     write_all (fst (write_to_db h outcome post now now' path sql row)) calls"

definition check_time :: "db_call \<Rightarrow> rat" where
  "check_time call = (case call of (outcome, post, now, rest) \<Rightarrow> now)"

text \<open>A handler whose \<open>post_to_slack\<close> flag is set.\<close>

definition posting_handler :: logger_handler where
  "posting_handler =
     \<lparr>post_to_slack = True, slack_url = ''https://hooks.example/T0'', last_error = 700,
      percent_ranges = [], product_ids = [], order_books = [],
      ticker_columns = const_ticker_columns, db_rows = [], slack_posts = []\<rparr>"

text \<open>DEF
  The book with cap 0.02 that \<open>init_book\<close> builds from the one bid \<open>["0.01", "1.0"]\<close>.
\<close>

definition tiny_book :: order_book where
  "tiny_book = \<lparr>market_price = 0, price_cap = 1 / 50, price_points = 2,
                 volume_seg_tree = [1, 1, 1, 0], currency = ''BTC-USD''\<rparr>"

text \<open>DEF
  The scenario of claim C4: a book with cap 200, \<open>init_book\<close> with the bids
  \<open>["100.00", "1.5"]\<close> and \<open>["99.50", "2.0"]\<close> and the ask \<open>["100.50", "0.5"]\<close>, then
  \<open>update_volume("100.00", 3.0)\<close> and \<open>update_market_price("100.00")\<close>. The result is
  the market price, the range sum from the market price to 100.50, and the buy volumes
  and sell volumes that the loop of \<open>query\<close> computes for the one band of 0.5 percent.
\<close>

definition s4_sell_vol :: "error + rat \<times> rat \<times> rat list \<times> rat list" where
  "s4_sell_vol =
     (case new_order_book 200 ''BTC-USD'' of
        Inl e \<Rightarrow> Inl e
      | Inr b \<Rightarrow>
         (case init_book b
                 [(Text (decimal_text ''100.00''), Text (decimal_text ''1.5'')),
                  (Text (decimal_text ''99.50''), Text (decimal_text ''2.0''))]
                 [(Text (decimal_text ''100.50''), Text (decimal_text ''0.5''))] of
            Inl e \<Rightarrow> Inl e
          | Inr b1 \<Rightarrow>
             (case update_volume b1 (Text (decimal_text ''100.00'')) (Num 3) of
                Inl e \<Rightarrow> Inl e
              | Inr b2 \<Rightarrow>
                 (case update_market_price b2 (Text (decimal_text ''100.00'')) of
                    Inl e \<Rightarrow> Inl e
                  | Inr b3 \<Rightarrow>
                     (case get_volume_in_range b3 (Num (market_price b3)) (Num (201 / 2)) of
                        Inl e \<Rightarrow> Inl e
                      | Inr sell_vol \<Rightarrow>
                         (case band_loop b3 (get_market_price b3) [binary64 (1 / 2)] [] [] of
                            Inl e \<Rightarrow> Inl e
                          | Inr (buy_vols, sell_vols) \<Rightarrow>
                              Inr (market_price b3, sell_vol, buy_vols, sell_vols)))))))"

section \<open>Facts about the rounding\<close>

lemma expo_up_bounds: "1 \<le> x \<Longrightarrow> 2 ^ expo_up x \<le> x \<and> x < 2 * 2 ^ expo_up x"
proof (induction x rule: expo_up.induct)
  case (1 x)
  show ?case
  proof (cases "x < 2")
    case True
    then have "expo_up x = 0" by (subst expo_up.simps) simp
    with True 1 show ?thesis by simp
  next
    case False
    then have e: "expo_up x = Suc (expo_up (x / 2))" by (subst expo_up.simps) simp
    have "1 \<le> x / 2" using False by simp
    with 1 False have "2 ^ expo_up (x / 2) \<le> x / 2 \<and> x / 2 < 2 * 2 ^ expo_up (x / 2)" by blast
    then show ?thesis unfolding e by simp
  qed
qed

lemma expo_dn_bounds:
  "0 < x \<Longrightarrow> x < 1 \<Longrightarrow> 1 \<le> x * 2 ^ expo_dn x \<and> x * 2 ^ expo_dn x < 2"
proof (induction x rule: expo_dn.induct)
  case (1 x)
  then have e: "expo_dn x = Suc (expo_dn (2 * x))" by (subst expo_dn.simps) simp
  show ?case
  proof (cases "1 \<le> 2 * x")
    case True
    then have "expo_dn (2 * x) = 0" by (subst expo_dn.simps) simp
    with True 1 show ?thesis unfolding e by simp
  next
    case False
    with 1 have "1 \<le> 2 * x * 2 ^ expo_dn (2 * x) \<and> 2 * x * 2 ^ expo_dn (2 * x) < 2" by simp
    then show ?thesis unfolding e by (simp add: mult.commute mult.left_commute)
  qed
qed

lemma expo_bounds:
  assumes "0 < x"
  shows "2 powi expo x \<le> x \<and> x < 2 powi (expo x + 1)"
proof (cases "1 \<le> x")
  case True
  then show ?thesis using expo_up_bounds[OF True]
    by (simp add: expo_def power_int_add_1 mult.commute)
next
  case False
  then have "1 \<le> x * 2 ^ expo_dn x \<and> x * 2 ^ expo_dn x < 2"
    using assms expo_dn_bounds by simp
  then have "inverse (2 ^ expo_dn x) \<le> x \<and> x < 2 * inverse (2 ^ expo_dn x)"
    by (simp add: field_simps)
  moreover have "(2::rat) powi (- int (expo_dn x) + 1) = 2 powi (- int (expo_dn x)) * 2"
    by (rule power_int_add_1) simp
  moreover have "(2::rat) powi (- int (expo_dn x)) = inverse (2 ^ expo_dn x)"
    by (simp add: power_int_minus)
  ultimately show ?thesis using False
    by (simp add: expo_def mult.commute)
qed

lemma expo_mono:
  assumes "0 < x" "x \<le> y"
  shows "expo x \<le> expo y"
proof (rule ccontr)
  assume "\<not> expo x \<le> expo y"
  then have "expo y + 1 \<le> expo x" by simp
  then have "(2::rat) powi (expo y + 1) \<le> 2 powi expo x"
    by (intro power_int_increasing) simp_all
  also have "\<dots> \<le> x" using expo_bounds[OF assms(1)] by simp
  also have "\<dots> \<le> y" by fact
  also have "\<dots> < 2 powi (expo y + 1)" using expo_bounds[of y] assms by simp
  finally show False by simp
qed

lemma round_half_even_ge: "of_int k \<le> r \<Longrightarrow> k \<le> round_half_even r"
proof -
  assume "of_int k \<le> r"
  then have "k \<le> \<lfloor>r\<rfloor>" by (simp add: le_floor_iff)
  then show ?thesis by (simp add: round_half_even_def Let_def)
qed

lemma round_half_even_le: "r \<le> of_int k \<Longrightarrow> round_half_even r \<le> k"
proof -
  assume a: "r \<le> of_int k"
  show ?thesis
  proof (cases "r = of_int k")
    case True
    then show ?thesis by (simp add: round_half_even_def Let_def)
  next
    case False
    with a have "r < of_int k" by simp
    then have "\<lfloor>r\<rfloor> < k" by (simp add: floor_less_iff)
    then show ?thesis by (simp add: round_half_even_def Let_def)
  qed
qed

lemma round_half_even_mono:
  assumes "a \<le> b"
  shows "round_half_even a \<le> round_half_even b"
proof (cases "\<lfloor>a\<rfloor> = \<lfloor>b\<rfloor>")
  case True
  then have "a - of_int \<lfloor>a\<rfloor> \<le> b - of_int \<lfloor>b\<rfloor>" using assms by simp
  then show ?thesis using True by (auto simp add: round_half_even_def Let_def)
next
  case False
  have "\<lfloor>a\<rfloor> \<le> \<lfloor>b\<rfloor>" using assms by (rule floor_mono)
  with False have "\<lfloor>a\<rfloor> + 1 \<le> \<lfloor>b\<rfloor>" by simp
  moreover have "round_half_even a \<le> \<lfloor>a\<rfloor> + 1" by (simp add: round_half_even_def Let_def)
  moreover have "\<lfloor>b\<rfloor> \<le> round_half_even b" by (simp add: round_half_even_def Let_def)
  ultimately show ?thesis by linarith
qed

lemma binary64_pos:
  "0 < x \<Longrightarrow> binary64 x = of_int (round_half_even (x / 2 powi (expo x - 52))) * 2 powi (expo x - 52)"
  by (simp add: binary64_def Let_def)

lemma binary64_bounds:
  assumes "0 < x"
  shows "2 powi expo x \<le> binary64 x \<and> binary64 x \<le> 2 powi (expo x + 1)"
proof -
  let ?u = "(2::rat) powi (expo x - 52)"
  have u: "0 < ?u" by simp
  have lo: "2 powi expo x = of_int (2 ^ 52) * ?u"
    by (simp add: power_int_diff)
  have hi: "2 powi (expo x + 1) = of_int (2 ^ 53) * ?u"
    by (simp add: power_int_diff power_int_add_1)
  have "of_int (2 ^ 52) \<le> x / ?u" using expo_bounds[OF assms] u lo
    by (simp add: pos_le_divide_eq)
  then have a: "2 ^ 52 \<le> round_half_even (x / ?u)" by (rule round_half_even_ge)
  have "x / ?u \<le> of_int (2 ^ 53)" using expo_bounds[OF assms] u hi
    by (simp add: pos_divide_le_eq)
  then have b: "round_half_even (x / ?u) \<le> 2 ^ 53" by (rule round_half_even_le)
  have "of_int (2 ^ 52) * ?u \<le> of_int (round_half_even (x / ?u)) * ?u"
    using a u by (intro mult_right_mono) (simp_all add: of_int_le_iff[symmetric] del: of_int_le_iff)
  moreover have "of_int (round_half_even (x / ?u)) * ?u \<le> of_int (2 ^ 53) * ?u"
    using b u by (intro mult_right_mono) (simp_all add: of_int_le_iff[symmetric] del: of_int_le_iff)
  ultimately show ?thesis unfolding lo hi binary64_pos[OF assms] by simp
qed

lemma binary64_mono_pos:
  assumes "0 < x" "x \<le> y"
  shows "binary64 x \<le> binary64 y"
proof (cases "expo x = expo y")
  case True
  let ?u = "(2::rat) powi (expo y - 52)"
  have u: "0 < ?u" by simp
  have "x / ?u \<le> y / ?u" using assms u by (simp add: divide_right_mono)
  then have "round_half_even (x / ?u) \<le> round_half_even (y / ?u)" by (rule round_half_even_mono)
  then have "of_int (round_half_even (x / ?u)) * ?u \<le> of_int (round_half_even (y / ?u)) * ?u"
    using u by (intro mult_right_mono) simp_all
  then show ?thesis using assms True by (simp add: binary64_pos)
next
  case False
  then have "expo x + 1 \<le> expo y" using expo_mono[OF assms] by simp
  then have "(2::rat) powi (expo x + 1) \<le> 2 powi expo y"
    by (intro power_int_increasing) simp_all
  moreover have "binary64 x \<le> 2 powi (expo x + 1)" using binary64_bounds[OF assms(1)] by simp
  moreover have "2 powi expo y \<le> binary64 y" using binary64_bounds[of y] assms by simp
  ultimately show ?thesis by linarith
qed

lemma binary64_zero: "binary64 0 = 0"
  by (simp add: binary64_def)

lemma binary64_gt0: "0 < x \<Longrightarrow> 0 < binary64 x"
proof -
  assume a: "0 < x"
  have "(0::rat) < 2 powi expo x" by simp
  with binary64_bounds[OF a] show ?thesis by linarith
qed

lemma binary64_mono:
  assumes "0 \<le> x" "x \<le> y"
  shows "binary64 x \<le> binary64 y"
proof (cases "x = 0")
  case True
  show ?thesis
  proof (cases "y = 0")
    case True with \<open>x = 0\<close> show ?thesis by simp
  next
    case False
    then have "0 < y" using assms by simp
    then show ?thesis using binary64_gt0[of y] True by (simp add: binary64_zero)
  qed
next
  case False
  then show ?thesis using assms binary64_mono_pos by simp
qed

lemma one_cent: "binary64 (binary64 (1 / 100) * 100) = 1"
  by code_simp

section \<open>The segment tree\<close>

lemma py_get_nat: "i < length xs \<Longrightarrow> py_get xs (int i) = Inr (xs ! i)"
  by (simp add: py_get_def py_index_def)

lemma py_set_nat: "i < length xs \<Longrightarrow> py_set xs (int i) v = Inr (xs[i := v])"
  by (simp add: py_set_def py_index_def)

lemma xor_one_nat: "(i::nat) XOR 1 = (if even i then i + 1 else i - 1)"
  unfolding xor_one_eq by auto

lemma xor_Suc_0_nat: "(i::nat) XOR Suc 0 = (if even i then i + 1 else i - 1)"
  using xor_one_nat[of i] by simp

lemma sibling_facts:
  fixes i :: nat
  assumes "1 < i"
  shows "i div 2 \<noteq> i" "i div 2 \<noteq> i XOR 1" "i < 2 * n \<Longrightarrow> i XOR 1 < 2 * n"
    "even i \<Longrightarrow> 2 * (i div 2) = i \<and> 2 * (i div 2) + 1 = i XOR 1"
    "odd i \<Longrightarrow> 2 * (i div 2) + 1 = i \<and> 2 * (i div 2) = i XOR 1"
proof -
  show "i div 2 \<noteq> i" using assms by simp
  show "i div 2 \<noteq> i XOR 1"
  proof (cases "even i")
    case True then show ?thesis using assms by (simp add: xor_one_nat xor_Suc_0_nat)
  next
    case False
    then obtain k where "i = 2 * k + 1" by (auto elim: oddE)
    then show ?thesis using assms by (simp add: xor_one_nat xor_Suc_0_nat)
  qed
  show "i < 2 * n \<Longrightarrow> i XOR 1 < 2 * n"
  proof (cases "even i")
    case True
    then obtain k where "i = 2 * k" by (auto elim: evenE)
    moreover assume "i < 2 * n"
    ultimately show ?thesis by (simp add: xor_one_nat xor_Suc_0_nat)
  next
    case False
    moreover assume "i < 2 * n"
    ultimately show ?thesis by (simp add: xor_one_nat xor_Suc_0_nat)
  qed
  show "even i \<Longrightarrow> 2 * (i div 2) = i \<and> 2 * (i div 2) + 1 = i XOR 1"
    by (simp add: xor_one_nat xor_Suc_0_nat)
  show "odd i \<Longrightarrow> 2 * (i div 2) + 1 = i \<and> 2 * (i div 2) = i XOR 1"
  proof -
    assume "odd i"
    then obtain k where "i = 2 * k + 1" by (auto elim: oddE)
    then show ?thesis by (simp add: xor_one_nat xor_Suc_0_nat)
  qed
qed

lemma update_parents_ok:
  assumes "length t = 2 * n" "i < 2 * n"
    and "\<forall>k. 1 \<le> k \<and> k < n \<and> k \<noteq> i div 2 \<longrightarrow> node_ok t k"
  shows "\<exists>t'. update_parents i t = Inr t' \<and> length t' = 2 * n \<and> sums_ok n t'
               \<and> (\<forall>j. n \<le> j \<longrightarrow> t' ! j = t ! j)"
  using assms
proof (induction i t rule: update_parents.induct)
  case (1 i t)
  show ?case
  proof (cases "1 < i")
    case False
    then have "i div 2 = 0" by simp
    with 1(3-) have "sums_ok n t" by (auto simp: sums_ok_def)
    then show ?thesis using False 1(2) by (subst update_parents.simps) simp
  next
    case True
    let ?p = "i div 2"
    let ?s = "i XOR 1"
    let ?t = "t[?p := t ! i + t ! ?s]"
    have sl: "?s < 2 * n" using 1(3) sibling_facts(3)[OF True] by blast
    have pl: "?p < n" using 1(3) by simp
    have pi: "?p \<noteq> i" "?p \<noteq> ?s" using sibling_facts(1,2)[OF True] by blast+
    have step: "update_parents i t = update_parents ?p ?t"
      using True 1(2,3) sl pl
      by (subst update_parents.simps) (simp add: py_get_nat py_set_nat drop_bit_eq_div)
    have len: "length ?t = 2 * n" using 1(2) by simp
    have pok: "1 \<le> ?p \<Longrightarrow> node_ok ?t ?p"
    proof -
      have "?t ! ?p = t ! i + t ! ?s" using pl 1(2) by simp
      moreover have "?t ! (2 * ?p) + ?t ! (2 * ?p + 1) = t ! i + t ! ?s"
      proof (cases "even i")
        case True
        then have "2 * ?p = i" "2 * ?p + 1 = ?s" using sibling_facts(4)[OF \<open>1 < i\<close>] by blast+
        then show ?thesis using pi by (metis nth_list_update_neq)
      next
        case False
        then have "2 * ?p + 1 = i" "2 * ?p = ?s" using sibling_facts(5)[OF \<open>1 < i\<close>] by blast+
        then show ?thesis using pi by (metis nth_list_update_neq add.commute)
      qed
      ultimately show ?thesis by (simp add: node_ok_def)
    qed
    have rest: "\<forall>k. 1 \<le> k \<and> k < n \<and> k \<noteq> ?p div 2 \<longrightarrow> node_ok ?t k"
    proof (intro allI impI)
      fix k assume k: "1 \<le> k \<and> k < n \<and> k \<noteq> ?p div 2"
      show "node_ok ?t k"
      proof (cases "k = ?p")
        case True then show ?thesis using pok k by simp
      next
        case False
        then have "node_ok t k" using 1(4) k by simp
        moreover have "2 * k \<noteq> ?p" "2 * k + 1 \<noteq> ?p" using k by auto
        ultimately show ?thesis using False by (simp add: node_ok_def)
      qed
    qed
    have g1: "py_get t (int i) = Inr (t ! i)" using 1(2,3) by (simp add: py_get_nat)
    have g2: "py_get t (int ?s) = Inr (t ! ?s)" using 1(2) sl by (simp add: py_get_nat)
    have g3: "py_set t (int (drop_bit 1 i)) (t ! i + t ! ?s) = Inr ?t"
      using 1(2) pl by (simp add: py_set_nat drop_bit_eq_div)
    have "\<exists>t'. update_parents (drop_bit 1 i) ?t = Inr t' \<and> length t' = 2 * n \<and> sums_ok n t'
               \<and> (\<forall>j. n \<le> j \<longrightarrow> t' ! j = ?t ! j)"
      using len pl rest by (intro "1.IH"[OF True g1 g2 g3]) (simp_all add: drop_bit_eq_div)
    then obtain t' where t': "update_parents ?p ?t = Inr t'" "length t' = 2 * n" "sums_ok n t'"
      "\<forall>j. n \<le> j \<longrightarrow> t' ! j = ?t ! j"
      by (auto simp: drop_bit_eq_div)
    have "\<forall>j. n \<le> j \<longrightarrow> t' ! j = t ! j" using t'(4) pl by simp
    then show ?thesis using step t' by simp
  qed
qed

lemma pair_sum:
  fixes f :: "nat \<Rightarrow> rat"
  assumes "a \<le> b"
  shows "(\<Sum>i = 2 * a..<2 * b. f i) = (\<Sum>k = a..<b. f (2 * k) + f (2 * k + 1))"
  using assms
proof (induction rule: dec_induct)
  case base
  show ?case by simp
next
  case (step m)
  have "(\<Sum>i = 2 * a..<2 * Suc m. f i) = (\<Sum>i = 2 * a..<2 * m. f i) + f (2 * m) + f (2 * m + 1)"
    using step(1) by (simp add: sum.atLeastLessThan_Suc)
  then show ?case using step by (simp add: sum.atLeastLessThan_Suc)
qed

lemma halve_sum:
  assumes "sums_ok n t" "1 \<le> a" "a \<le> b" "b \<le> n"
  shows "(\<Sum>i = 2 * a..<2 * b. t ! i) = (\<Sum>k = a..<b. t ! k)"
proof -
  have "(\<Sum>k = a..<b. t ! (2 * k) + t ! (2 * k + 1)) = (\<Sum>k = a..<b. t ! k)"
    using assms by (intro sum.cong) (auto simp: sums_ok_def node_ok_def)
  then show ?thesis using pair_sum[OF assms(3), of "\<lambda>i. t ! i"] by simp
qed

lemma odd_int_and: "(int l AND 1 \<noteq> 0) = odd l"
  by (simp add: and_one_eq even_iff_mod_2_eq_zero; presburger)

lemma py_get_pred: "0 < r \<Longrightarrow> r \<le> length xs \<Longrightarrow> py_get xs (int r - 1) = Inr (xs ! (r - 1))"
proof -
  assume a: "0 < r" "r \<le> length xs"
  then have "int r - 1 = int (r - 1)" by simp
  moreover have "r - 1 < length xs" using a by simp
  ultimately show ?thesis using py_get_nat[of "r - 1" xs] by (simp only:)
qed

lemma drop_bit_int: "drop_bit 1 (int l) = int (l div 2)"
  by (simp add: drop_bit_eq_div zdiv_int)

lemma sum_loop_correct:
  assumes "length t = 2 * n" "sums_ok n t"
  shows "1 \<le> l \<Longrightarrow> l \<le> r \<Longrightarrow> r \<le> 2 * n
         \<Longrightarrow> sum_loop t (int l) (int r) s = Inr (s + (\<Sum>i = l..<r. t ! i))"
proof (induction r arbitrary: l s rule: less_induct)
  case (less r)
  show ?case
  proof (cases "l < r")
    case False
    then have "l = r" using less.prems by simp
    then show ?thesis by (subst sum_loop.simps) simp
  next
    case True
    define l1 where "l1 = (if odd l then l + 1 else l)"
    define r1 where "r1 = (if odd r then r - 1 else r)"
    define a where "a = (if odd l then t ! l else 0)"
    define c where "c = (if odd r then t ! (r - 1) else 0)"
    have ev: "even l1" "even r1" by (auto simp: l1_def r1_def)
    have b1: "l1 \<le> r1" using True by (auto simp: l1_def r1_def elim!: oddE evenE; presburger)
    have b2: "2 \<le> l1" using less.prems(1) ev(1) by (auto simp: l1_def elim!: oddE evenE)
    have b3: "r1 \<le> r" "l \<le> l1" "r1 \<le> 2 * n" using less.prems by (auto simp: l1_def r1_def)
    have ra: "(if int l AND 1 \<noteq> 0 then py_get t (int l) else Inr 0) = Inr a"
      using True less.prems assms(1) by (simp add: odd_int_and a_def py_get_nat)
    have "py_get t (int r - 1) = Inr (t ! (r - 1))"
      using True less.prems assms(1) by (intro py_get_pred) simp_all
    then have rc: "(if int r AND 1 \<noteq> 0 then py_get t (int r - 1) else Inr 0) = Inr c"
      by (simp add: odd_int_and c_def)
    have dl: "drop_bit 1 (if int l AND 1 \<noteq> 0 then int l + 1 else int l) = int (l1 div 2)"
      by (simp add: odd_int_and l1_def drop_bit_eq_div zdiv_int; presburger)
    have dr: "drop_bit 1 (if int r AND 1 \<noteq> 0 then int r - 1 else int r) = int (r1 div 2)"
      using True by (simp add: odd_int_and r1_def drop_bit_eq_div zdiv_int of_nat_diff; presburger)
    have step: "sum_loop t (int l) (int r) s = sum_loop t (int (l1 div 2)) (int (r1 div 2)) (s + a + c)"
      using True by (subst sum_loop.simps) (simp only: ra rc dl dr of_nat_less_iff if_True sum.case)
    have lt: "r1 div 2 < r" using True b3 by simp
    have ih: "sum_loop t (int (l1 div 2)) (int (r1 div 2)) (s + a + c)
              = Inr (s + a + c + (\<Sum>i = l1 div 2..<r1 div 2. t ! i))"
      using b1 b2 b3 by (intro less.IH[OF lt]) (simp_all add: div_le_mono)
    have h: "(\<Sum>i = 2 * (l1 div 2)..<2 * (r1 div 2). t ! i) = (\<Sum>k = l1 div 2..<r1 div 2. t ! k)"
      using b1 b2 b3 by (intro halve_sum[OF assms(2)]) (simp_all add: div_le_mono)
    have e2: "2 * (l1 div 2) = l1" "2 * (r1 div 2) = r1" using ev by simp_all
    have s1: "(\<Sum>i = l..<r. t ! i) = a + (\<Sum>i = l1..<r. t ! i)"
      using True by (simp add: a_def l1_def sum.atLeast_Suc_lessThan)
    have s2: "(\<Sum>i = l1..<r. t ! i) = (\<Sum>i = l1..<r1. t ! i) + c"
    proof (cases "odd r")
      case False then show ?thesis by (simp add: c_def r1_def)
    next
      case True
      then have "r = Suc r1" by (auto simp: r1_def elim: oddE)
      then show ?thesis using b1 True by (simp add: c_def sum.atLeastLessThan_Suc)
    qed
    show ?thesis unfolding step ih using h s1 s2 e2 by simp
  qed
qed

lemma for_loop_append:
  "for_loop body (xs @ ys) s =
     (case for_loop body xs s of Inl e \<Rightarrow> Inl e | Inr s' \<Rightarrow> for_loop body ys s')"
  by (induction xs arbitrary: s) (auto split: sum.splits)

lemma copy_leaves_ok:
  assumes "length t = 2 * n" "length vs = n"
  shows "m \<le> n \<Longrightarrow> \<exists>t'. for_loop (copy_leaf n vs) [0..<m] t = Inr t' \<and> length t' = 2 * n
            \<and> (\<forall>i<m. t' ! (n + i) = vs ! i)
            \<and> (\<forall>j. j < n \<or> n + m \<le> j \<longrightarrow> t' ! j = t ! j)"
proof (induction m)
  case 0
  show ?case using assms by simp
next
  case (Suc m)
  then obtain t1 where t1: "for_loop (copy_leaf n vs) [0..<m] t = Inr t1" "length t1 = 2 * n"
    "\<forall>i<m. t1 ! (n + i) = vs ! i" "\<forall>j. j < n \<or> n + m \<le> j \<longrightarrow> t1 ! j = t ! j"
    by auto
  have m: "m < n" using Suc.prems by simp
  have step: "copy_leaf n vs t1 m = Inr (t1[n + m := vs ! m])"
    using m assms t1(2) by (simp add: copy_leaf_def py_get_def py_set_def py_index_def nat_add_distrib)
  have "for_loop (copy_leaf n vs) [0..<Suc m] t = Inr (t1[n + m := vs ! m])"
    using t1(1) step by (simp add: for_loop_append)
  moreover have "\<forall>i<Suc m. (t1[n + m := vs ! m]) ! (n + i) = vs ! i"
    using t1(2,3) m by (auto simp: nth_list_update less_Suc_eq)
  moreover have "\<forall>j. j < n \<or> n + Suc m \<le> j \<longrightarrow> (t1[n + m := vs ! m]) ! j = t ! j"
    using t1(4) by (auto simp: nth_list_update)
  ultimately show ?case using t1(2) by simp
qed

lemma push_bit_one_nat: "push_bit 1 (i::nat) = 2 * i" "2 * i OR 1 = 2 * i + 1"
  unfolding or_one_eq push_bit_eq_mult by simp_all

lemma sum_children_ok:
  assumes "length t = 2 * n" "m \<le> n"
    and "\<forall>k. m \<le> k \<and> 1 \<le> k \<and> k < n \<longrightarrow> node_ok t k"
  shows "\<exists>t'. for_loop sum_children (rev [0..<m]) t = Inr t' \<and> length t' = 2 * n
            \<and> sums_ok n t' \<and> (\<forall>j. n \<le> j \<longrightarrow> t' ! j = t ! j)"
  using assms
proof (induction m arbitrary: t)
  case 0
  then show ?case by (auto simp: sums_ok_def)
next
  case (Suc m)
  let ?t = "t[m := t ! (2 * m) + t ! (2 * m + 1)]"
  have m: "m < n" using Suc.prems by simp
  have g1: "py_get t (int (2 * m)) = Inr (t ! (2 * m))"
    using m Suc.prems(1) by (intro py_get_nat) simp
  have g2: "py_get t (int (2 * m + 1)) = Inr (t ! (2 * m + 1))"
    using m Suc.prems(1) by (intro py_get_nat) simp
  have g3: "py_set t (int m) (t ! (2 * m) + t ! (2 * m + 1)) = Inr ?t"
    using m Suc.prems(1) by (intro py_set_nat) simp
  have step: "sum_children t m = Inr ?t"
    unfolding sum_children_def push_bit_one_nat g1 g2 using g3 by simp
  have len: "length ?t = 2 * n" using Suc.prems(1) by simp
  have ok: "\<forall>k. m \<le> k \<and> 1 \<le> k \<and> k < n \<longrightarrow> node_ok ?t k"
  proof (intro allI impI)
    fix k assume k: "m \<le> k \<and> 1 \<le> k \<and> k < n"
    show "node_ok ?t k"
    proof (cases "k = m")
      case True
      then have "2 * m \<noteq> m" "2 * m + 1 \<noteq> m" using k by simp_all
      then show ?thesis using True m Suc.prems(1) by (simp add: node_ok_def)
    next
      case False
      then have "node_ok t k" using Suc.prems(3) k by simp
      moreover have "k \<noteq> m" "2 * k \<noteq> m" "2 * k + 1 \<noteq> m" using False k by simp_all
      ultimately show ?thesis by (simp add: node_ok_def)
    qed
  qed
  from Suc.IH[OF len _ ok] m
  obtain t' where t': "for_loop sum_children (rev [0..<m]) ?t = Inr t'" "length t' = 2 * n"
    "sums_ok n t'" "\<forall>j. n \<le> j \<longrightarrow> t' ! j = ?t ! j"
    by auto
  have "\<forall>j. n \<le> j \<longrightarrow> t' ! j = t ! j" using t'(4) m by simp
  then show ?case using step t' by simp
qed

lemma build_order_book_ok:
  assumes "wf_book b" "length vs = price_points b"
  shows "\<exists>t'. build_order_book b vs = Inr (b\<lparr>volume_seg_tree := t'\<rparr>)
            \<and> length t' = 2 * price_points b \<and> sums_ok (price_points b) t'
            \<and> drop (price_points b) t' = vs"
proof -
  let ?n = "price_points b"
  have len: "length (volume_seg_tree b) = 2 * ?n" using assms(1) by (simp add: wf_book_def)
  from copy_leaves_ok[OF len assms(2), of ?n]
  obtain t1 where t1: "for_loop (copy_leaf ?n vs) [0..<?n] (volume_seg_tree b) = Inr t1"
    "length t1 = 2 * ?n" "\<forall>i<?n. t1 ! (?n + i) = vs ! i"
    by auto
  have "\<forall>k. ?n \<le> k \<and> 1 \<le> k \<and> k < ?n \<longrightarrow> node_ok t1 k" by auto
  from sum_children_ok[OF t1(2) _ this]
  obtain t2 where t2: "for_loop sum_children (rev [0..<?n]) t1 = Inr t2" "length t2 = 2 * ?n"
    "sums_ok ?n t2" "\<forall>j. ?n \<le> j \<longrightarrow> t2 ! j = t1 ! j"
    by auto
  have "drop ?n t2 = vs"
  proof (rule nth_equalityI)
    show "length (drop ?n t2) = length vs" using t2(2) assms(2) by simp
  next
    fix i assume "i < length (drop ?n t2)"
    then have "i < ?n" using t2(2) by simp
    then show "drop ?n t2 ! i = vs ! i" using t2(2,4) t1(3) by simp
  qed
  then show ?thesis using t1(1) t2 by (auto simp: build_order_book_def intro!: exI[of _ t2])
qed

lemma init_book_ok:
  assumes "wf_book b" "gen_vol_array b bids asks = Inr vs" "length vs = price_points b"
  shows "\<exists>t'. init_book b bids asks = Inr (b\<lparr>volume_seg_tree := t'\<rparr>)
            \<and> wf_book (b\<lparr>volume_seg_tree := t'\<rparr>) \<and> sums_ok (price_points b) t'
            \<and> leaves (b\<lparr>volume_seg_tree := t'\<rparr>) = vs"
  using build_order_book_ok[OF assms(1,3)] assms(2)
  by (auto simp: init_book_def wf_book_def leaves_def)

lemma update_volume_ok:
  assumes "wf_book b" "sums_ok (price_points b) (volume_seg_tree b)"
    and "valid_order b price volume" "to_float price = Some p" "to_float volume = Some v"
    and "py_int (binary64 (p * 100)) = int k" "1 \<le> k" "k \<le> price_points b"
  shows "\<exists>t'. update_volume b price volume = Inr (b\<lparr>volume_seg_tree := t'\<rparr>)
            \<and> wf_book (b\<lparr>volume_seg_tree := t'\<rparr>) \<and> sums_ok (price_points b) t'
            \<and> leaves (b\<lparr>volume_seg_tree := t'\<rparr>) = (leaves b)[k - 1 := v]"
proof -
  let ?n = "price_points b"
  let ?t = "volume_seg_tree b"
  let ?i = "?n + k - 1"
  have len: "length ?t = 2 * ?n" using assms(1) by (simp add: wf_book_def)
  have idx: "int ?n + int k - 1 = int ?i" using assms(7) by simp
  have il: "?i < 2 * ?n" "?n \<le> ?i" using assms(7,8) by simp_all
  have set: "py_set ?t (int ?i) v = Inr (?t[?i := v])" using il len by (intro py_set_nat) simp
  have "\<forall>j. 1 \<le> j \<and> j < ?n \<and> j \<noteq> ?i div 2 \<longrightarrow> node_ok (?t[?i := v]) j"
  proof (intro allI impI)
    fix j assume j: "1 \<le> j \<and> j < ?n \<and> j \<noteq> ?i div 2"
    then have "node_ok ?t j" using assms(2) by (simp add: sums_ok_def)
    moreover have "j \<noteq> ?i" "2 * j \<noteq> ?i" "2 * j + 1 \<noteq> ?i" using j il by auto
    ultimately show "node_ok (?t[?i := v]) j" by (simp add: node_ok_def)
  qed
  from update_parents_ok[OF _ il(1) this] len
  obtain t' where t': "update_parents ?i (?t[?i := v]) = Inr t'" "length t' = 2 * ?n"
    "sums_ok ?n t'" "\<forall>j. ?n \<le> j \<longrightarrow> t' ! j = (?t[?i := v]) ! j"
    by auto
  have "drop ?n t' = (drop ?n ?t)[k - 1 := v]"
  proof (rule nth_equalityI)
    show "length (drop ?n t') = length ((drop ?n ?t)[k - 1 := v])" using t'(2) len by simp
  next
    fix i assume "i < length (drop ?n t')"
    then have i: "i < ?n" using t'(2) by simp
    have "drop ?n t' ! i = (?t[?i := v]) ! (?n + i)" using t'(2,4) i by simp
    also have "\<dots> = (drop ?n ?t)[k - 1 := v] ! i"
      using i len assms(7) by (cases "i = k - 1") (auto simp: nth_list_update)
    finally show "drop ?n t' ! i = (drop ?n ?t)[k - 1 := v] ! i" .
  qed
  moreover have "update_volume b price volume = Inr (b\<lparr>volume_seg_tree := t'\<rparr>)"
  proof -
    have "update_volume b price volume =
          (case py_set ?t (int ?n + py_int (binary64 (p * 100)) - 1) v of
             Inl e \<Rightarrow> Inl e
           | Inr t \<Rightarrow>
              (case update_parents (nat (int ?n + py_int (binary64 (p * 100)) - 1)) t of
                 Inl e \<Rightarrow> Inl e
               | Inr t' \<Rightarrow> Inr (b\<lparr>volume_seg_tree := t'\<rparr>)))"
      using assms(3,4,5) by (simp add: update_volume_def Let_def)
    also have "\<dots> = Inr (b\<lparr>volume_seg_tree := t'\<rparr>)"
      unfolding assms(6) idx nat_int set sum.case t'(1) ..
    finally show ?thesis .
  qed
  ultimately show ?thesis using t'(2,3)
    by (auto simp: wf_book_def leaves_def intro!: exI[of _ t'])
qed

section \<open>Range queries and the root\<close>

lemma sum_loop_empty: "\<not> l < r \<Longrightarrow> sum_loop t l r s = Inr s"
  by (subst sum_loop.simps) simp

lemma leaves_nth: "wf_book b \<Longrightarrow> k < price_points b \<Longrightarrow> leaves b ! k = volume_seg_tree b ! (price_points b + k)"
  by (simp add: leaves_def wf_book_def)

lemma get_volume_in_range_ok:
  assumes "wf_book b" "sums_ok (price_points b) (volume_seg_tree b)"
    and "valid_price b lo" "valid_price b (Num hi)" "to_float lo = Some l"
    and "py_int (binary64 (binary64 (binary64 (l * 100) - 1) + of_nat (price_points b))) = int L"
    and "py_int (binary64 (binary64 (binary64 (binary64 (binary64 hi + binary64 (1 / 100)) * 100)
            - 1) + of_nat (price_points b))) = int R"
    and "1 \<le> L" "price_points b \<le> L" "L \<le> R" "R \<le> 2 * price_points b"
  shows "get_volume_in_range b lo (Num hi)
         = Inr (\<Sum>k = L - price_points b..<R - price_points b. leaves b ! k)"
proof -
  let ?n = "price_points b"
  let ?t = "volume_seg_tree b"
  have len: "length ?t = 2 * ?n" using assms(1) by (simp add: wf_book_def)
  have "get_volume_in_range b lo (Num hi) = sum_loop ?t (int L) (int R) 0"
    using assms(3,4,5) unfolding get_volume_in_range_def Let_def
    by (simp add: assms(6,7))
  also have "\<dots> = Inr (0 + (\<Sum>i = L..<R. ?t ! i))"
    using assms(8,10,11) by (intro sum_loop_correct[OF len assms(2)])
  also have "(\<Sum>i = L..<R. ?t ! i) = (\<Sum>k = L - ?n..<R - ?n. ?t ! (k + ?n))"
    using sum.shift_bounds_nat_ivl[of "\<lambda>i. ?t ! i" "L - ?n" ?n "R - ?n"] assms(9,10) by simp
  also have "\<dots> = (\<Sum>k = L - ?n..<R - ?n. leaves b ! k)"
    using assms(1,11) by (intro sum.cong) (auto simp: leaves_nth add.commute)
  finally show ?thesis by simp
qed

lemma get_volume_in_range_empty:
  assumes "valid_price b lo" "valid_price b (Num hi)" "to_float lo = Some l"
    and "py_int (binary64 (binary64 (binary64 (l * 100) - 1) + of_nat (price_points b))) = L"
    and "py_int (binary64 (binary64 (binary64 (binary64 (binary64 hi + binary64 (1 / 100)) * 100)
            - 1) + of_nat (price_points b))) = R"
    and "R \<le> L"
  shows "get_volume_in_range b lo (Num hi) = Inr 0"
proof -
  have "get_volume_in_range b lo (Num hi) = sum_loop (volume_seg_tree b) L R 0"
    using assms(1,2,3) unfolding get_volume_in_range_def Let_def
    by (simp add: assms(4,5))
  then show ?thesis using assms(6) by (simp add: sum_loop_empty)
qed

lemma window_sum:
  assumes "length t = 2 * n" "sums_ok n t"
  shows "1 \<le> m \<Longrightarrow> m \<le> n \<Longrightarrow> (\<Sum>i = m..<2 * m. t ! i) = t ! 1"
proof (induction m rule: less_induct)
  case (less m)
  show ?case
  proof (cases "m = 1")
    case True
    have "{1..<2::nat} = {1}" by auto
    then show ?thesis using True by simp
  next
    case False
    then have m2: "2 \<le> m" using less.prems by simp
    define h where "h = (m + 1) div 2"
    have h: "1 \<le> h" "h < m" "h \<le> n" using m2 less.prems by (auto simp: h_def)
    have ih: "(\<Sum>i = h..<2 * h. t ! i) = t ! 1" using less.IH[OF h(2) h(1) h(3)] .
    show ?thesis
    proof (cases "even m")
      case True
      then have e: "2 * h = m" by (auto simp: h_def elim: evenE)
      have "(\<Sum>i = 2 * h..<2 * m. t ! i) = (\<Sum>k = h..<m. t ! k)"
        using h less.prems by (intro halve_sum[OF assms(2)]) simp_all
      then show ?thesis using ih e by simp
    next
      case False
      then have e: "2 * h = m + 1" by (auto simp: h_def elim: oddE)
      have "(\<Sum>i = m..<2 * m. t ! i) = t ! m + (\<Sum>i = m + 1..<2 * m. t ! i)"
        using m2 by (simp add: sum.atLeast_Suc_lessThan)
      also have "(\<Sum>i = m + 1..<2 * m. t ! i) = (\<Sum>k = h..<m. t ! k)"
        using halve_sum[OF assms(2), of h m] h less.prems e by simp
      also have "t ! m + (\<Sum>k = h..<m. t ! k) = (\<Sum>k = h..<m + 1. t ! k)"
        using h by (simp add: sum.atLeastLessThan_Suc)
      finally show ?thesis using ih e by simp
    qed
  qed
qed

lemma root_is_sum_of_leaves:
  assumes "wf_book b" "sums_ok (price_points b) (volume_seg_tree b)" "1 \<le> price_points b"
  shows "volume_seg_tree b ! 1 = (\<Sum>k = 0..<price_points b. leaves b ! k)"
proof -
  let ?n = "price_points b"
  let ?t = "volume_seg_tree b"
  have len: "length ?t = 2 * ?n" using assms(1) by (simp add: wf_book_def)
  have "?t ! 1 = (\<Sum>i = ?n..<2 * ?n. ?t ! i)"
    using window_sum[OF len assms(2) assms(3)] by simp
  also have "\<dots> = (\<Sum>k = 0..<?n. ?t ! (k + ?n))"
    using sum.shift_bounds_nat_ivl[of "\<lambda>i. ?t ! i" 0 ?n ?n] by (simp add: mult_2)
  also have "\<dots> = (\<Sum>k = 0..<?n. leaves b ! k)"
    using assms(1) by (intro sum.cong) (auto simp: leaves_nth add.commute)
  finally show ?thesis .
qed

lemma sum_nth_update:
  fixes xs :: "rat list"
  assumes "a < length xs"
  shows "(\<Sum>i = l..<r. xs[a := v] ! i)
         = (\<Sum>i = l..<r. xs ! i) + (if l \<le> a \<and> a < r then v - xs ! a else 0)"
proof (cases "l \<le> a \<and> a < r")
  case False
  then have "(\<Sum>i = l..<r. xs[a := v] ! i) = (\<Sum>i = l..<r. xs ! i)"
    by (intro sum.cong) auto
  then show ?thesis using False by auto
next
  case True
  then have a: "a \<in> {l..<r}" by simp
  have e1: "(\<Sum>i = l..<r. xs[a := v] ! i) = v + (\<Sum>i \<in> {l..<r} - {a}. xs[a := v] ! i)"
    using a assms by (simp add: sum.remove[of _ a])
  have e2: "(\<Sum>i \<in> {l..<r} - {a}. xs[a := v] ! i) = (\<Sum>i \<in> {l..<r} - {a}. xs ! i)"
    by (intro sum.cong) auto
  have e3: "(\<Sum>i = l..<r. xs ! i) = xs ! a + (\<Sum>i \<in> {l..<r} - {a}. xs ! i)"
    using a by (simp add: sum.remove[of _ a])
  show ?thesis using True e1 e2 e3 by simp
qed

lemma sum_nth_replicate: "r \<le> m \<Longrightarrow> (\<Sum>i = l..<r. replicate m (0::rat) ! i) = 0"
  by (intro sum.neutral) auto

lemma new_order_book_ok:
  assumes "new_order_book cap cur = Inr b"
  shows "wf_book b \<and> sums_ok (price_points b) (volume_seg_tree b)
         \<and> leaves b = replicate (price_points b) 0 \<and> market_price b = 0 \<and> price_cap b = cap
         \<and> 0 < cap \<and> price_points b = nat (py_int (binary64 (cap * 100)))"
  using assms
  by (auto simp: new_order_book_def Let_def wf_book_def leaves_def sums_ok_def node_ok_def
      split: if_splits)

section \<open>The handler\<close>

lemma new_logger_handler_fields:
  "\<exists>h. new_logger_handler now = Inr h \<and> post_to_slack h = False \<and> last_error h = now - 300
       \<and> slack_posts h = []
       \<and> db_rows h = [(''tickers.db'', create_tickers_sql, None),
                       (''order_books.db'', create_order_books_sql, None)]
       \<and> ticker_columns h = const_ticker_columns \<and> slack_url h = []"
  by (simp add: new_logger_handler_def new_order_book_def currencies_def Let_def
      btc_usd_def eth_usd_def ltc_usd_def bch_usd_def)

lemma ticker_row_section6:
  assumes "ticker_columns h = const_ticker_columns"
  shows "ticker_row h (section6_ticker product tm price best_bid best_ask open_24h volume_24h
            side last_size sequence) system_time server_time
         = Inr [JNum system_time, JStr server_time, product, price, best_bid, best_ask,
                open_24h, volume_24h, side, last_size]"
  by (simp add: ticker_row_def section6_ticker_def assms const_ticker_columns_def dict_get_def)

text \<open>
  Claim C8. For a ticker frame whose keys come in the order of the interface description,
  \<open>insert_ticker\<close> submits one row of 10 values, but not in the order of the columns
  of the \<open>tickers\<close> table (system_time, server_time, product_id, price, open_24h,
  volume_24h, best_bid, best_ask, side, last_size): the values follow the order of the
  keys of the frame, so that best_bid (120) is in the place of open_24h, best_ask (121) in
  the place of volume_24h, open_24h (100) in the place of best_bid and volume_24h (5000) in
  the place of best_ask. The call returns, and the row is the one statement it adds to
  the two of \<open>__init_database\<close>.
\<close>

theorem insert_ticker_section6_row:
  "(case new_logger_handler now of
      Inl e \<Rightarrow> Inl e
    | Inr h \<Rightarrow>
       (case insert_ticker h
               (section6_ticker (JStr ''BTC-USD'') (JStr ''2020-01-01T00:00:00.000Z'')
                  (JNum (12345 / 100)) (JNum 120) (JNum 121) (JNum 100) (JNum 5000)
                  (JStr ''buy'') (JNum (1 / 10)) (JNum 7))
               system_time server_time Committed post now now of
          (h', r) \<Rightarrow> Inr (r, db_rows h')))
   = Inr (Inr (),
          [(''tickers.db'', create_tickers_sql, None),
           (''order_books.db'', create_order_books_sql, None),
           (''tickers.db'', ticker_sql,
            Some [JNum system_time, JStr server_time, JStr ''BTC-USD'', JNum (12345 / 100),
                  JNum 120, JNum 121, JNum 100, JNum 5000, JStr ''buy'', JNum (1 / 10)])])"
proof -
  obtain h where h: "new_logger_handler now = Inr h"
    "db_rows h = [(''tickers.db'', create_tickers_sql, None),
                  (''order_books.db'', create_order_books_sql, None)]"
    "ticker_columns h = const_ticker_columns"
    using new_logger_handler_fields[of now] by auto
  show ?thesis
    by (simp add: h insert_ticker_def ticker_row_section6 write_to_db_def)
qed

text \<open>
  Claim C3. \<open>update_order_book\<close> reads \<open>data['changes'][0]\<close> only: an \<open>l2update\<close> frame
  with the changes \<open>change # rest\<close> leaves the handler, and so every book, as the frame
  with the single change \<open>change\<close> does. The changes after the first one are not applied.
\<close>

theorem l2update_applies_first_change_only:
  "update_order_book h (l2update_frame product (change # rest) tm)
   = update_order_book h (l2update_frame product [change] tm)"
proof -
  have head: "py_get (change # cs) 0 = Inr change" for cs
    by (simp add: py_get_def py_index_def)
  have skip: "when_type match_name f h' (l2update_frame product cs tm) = Inr h'"
    "when_type snapshot f h' (l2update_frame product cs tm) = Inr h'" for f h' cs
    by (simp_all add: when_type_def l2update_frame_def dict_get_def match_name_def snapshot_def)
  have "on_l2update h (l2update_frame product (change # rest) tm)
        = on_l2update h (l2update_frame product [change] tm)"
    by (simp add: on_l2update_def l2update_frame_def dict_get_def head cong: sum.case_cong)
  then have "when_type l2update on_l2update h (l2update_frame product (change # rest) tm)
        = when_type l2update on_l2update h (l2update_frame product [change] tm)"
    by (simp add: when_type_def l2update_frame_def dict_get_def l2update_def)
  then show ?thesis
    by (simp add: update_order_book_def skip cong: sum.case_cong)
qed

lemma write_to_db_sql_error:
  "write_to_db h (SqlError err) post now now' path sql row =
     (if \<not> str_in ''database is locked'' err \<and> \<not> str_in ''UNIQUE'' err
         \<and> last_error h \<le> now - 300
      then (if post_to_slack h
            then (case post of
                    Posted \<Rightarrow>
                      (h\<lparr>last_error := now',
                         slack_posts := slack_posts h
                           @ [(slack_url h, ''Something went wrong: '' @ err)]\<rparr>, Inr None)
                  | PostRaises \<Rightarrow> (h\<lparr>last_error := now'\<rparr>, Inl RequestException))
            else (h\<lparr>last_error := now'\<rparr>, Inr None))
      else (h, Inr None))"
  by (simp add: write_to_db_def write_to_slack_def split: post_outcome.splits)

lemma write_to_db_flag:
  "post_to_slack (fst (write_to_db h outcome post now now' path sql row)) = post_to_slack h"
  by (cases outcome) (simp_all add: write_to_db_def write_to_slack_def split: post_outcome.splits)

lemma write_to_db_posts:
  "slack_posts (fst (write_to_db h outcome post now now' path sql row)) \<noteq> slack_posts h
   \<Longrightarrow> post_to_slack h \<and> last_error h \<le> now - 300
       \<and> last_error (fst (write_to_db h outcome post now now' path sql row)) = now'"
  by (cases outcome)
     (auto simp: write_to_db_def write_to_slack_def split: post_outcome.splits if_splits)

lemma write_to_db_quiet:
  "\<not> last_error h \<le> now - 300 \<Longrightarrow>
   slack_posts (fst (write_to_db h outcome post now now' path sql row)) = slack_posts h
   \<and> last_error (fst (write_to_db h outcome post now now' path sql row)) = last_error h"
  by (cases outcome) (simp_all add: write_to_db_def)

lemma write_all_quiet:
  "list_all (\<lambda>call. check_time call < last_error h + 300) calls \<Longrightarrow>
   slack_posts (write_all h calls) = slack_posts h \<and> last_error (write_all h calls) = last_error h"
proof (induction calls arbitrary: h)
  case Nil
  then show ?case by simp
next
  case (Cons call calls)
  obtain outcome post now now' path sql row
    where call: "call = (outcome, post, now, now', path, sql, row)"
    by (cases call) auto
  let ?h = "fst (write_to_db h outcome post now now' path sql row)"
  have "\<not> last_error h \<le> now - 300" using Cons.prems by (simp add: call check_time_def)
  then have q: "slack_posts ?h = slack_posts h" "last_error ?h = last_error h"
    using write_to_db_quiet by blast+
  have "list_all (\<lambda>call. check_time call < last_error ?h + 300) calls"
    using Cons.prems q by simp
  then show ?case using Cons.IH[of ?h] q by (simp add: call)
qed

lemma write_all_flag_off:
  "\<not> post_to_slack h \<Longrightarrow>
   slack_posts (write_all h calls) = slack_posts h \<and> \<not> post_to_slack (write_all h calls)"
proof (induction calls arbitrary: h)
  case Nil
  then show ?case by simp
next
  case (Cons call calls)
  obtain outcome post now now' path sql row
    where call: "call = (outcome, post, now, now', path, sql, row)"
    by (cases call) auto
  let ?h = "fst (write_to_db h outcome post now now' path sql row)"
  have f: "\<not> post_to_slack ?h" using Cons.prems by (simp add: write_to_db_flag)
  have "slack_posts ?h = slack_posts h" using write_to_db_posts Cons.prems by blast
  then show ?case using Cons.IH[OF f] by (simp add: call)
qed

text \<open>
  Claim C9, as stated, at the handler that \<open>__init__\<close> makes: a sink error that is
  neither a lock contention nor a uniqueness violation, 300 seconds after the initial
  value of \<open>last_error\<close>. The test of the rate limit passes and \<open>last_error\<close> is advanced,
  but nothing is posted.
\<close>

theorem other_sink_error_not_posted:
  "(case new_logger_handler 1000 of
      Inl e \<Rightarrow> Inl e
    | Inr h \<Rightarrow>
       (case write_to_db h (SqlError ''disk I/O error'') Posted 1000 1000 ''tickers.db''
               ticker_sql None of
          (h', r) \<Rightarrow> Inr (r, last_error h \<le> 1000 - 300, last_error h', slack_posts h')))
   = Inr (Inr None, True, 1000, [])"
proof -
  obtain h where h: "new_logger_handler 1000 = Inr h" "post_to_slack h = False"
    "last_error h = 1000 - 300" "slack_posts h = []"
    using new_logger_handler_fields[of 1000] by auto
  show ?thesis
    by (simp add: h write_to_db_sql_error)
qed

text \<open>
  Claim C9, amended. When \<open>execute\<close> or \<open>commit\<close> raises \<open>sqlite3.Error\<close>, the row is
  dropped. If the message has \<open>database is locked\<close> or \<open>UNIQUE\<close> in it, or if
  \<open>last_error\<close> is less than 300 seconds back, nothing else happens and None is
  returned. Otherwise \<open>last_error\<close> becomes the current time, and the message is posted
  if and only if \<open>post_to_slack\<close> is set and \<open>requests.post\<close> returns (when it raises,
  its exception leaves \<open>__write_to_db\<close>).

  Over any sequence of calls: once a call has posted a message, no call whose test of
  the rate limit is made less than 300 seconds after the clock reading of that call
  posts another one; and a handler whose \<open>post_to_slack\<close> is not set, as \<open>__init__\<close>
  leaves it, posts nothing at all.
\<close>

theorem sink_error_notification:
  "write_to_db h (SqlError err) post now now' path sql row =
     (if \<not> str_in ''database is locked'' err \<and> \<not> str_in ''UNIQUE'' err
         \<and> last_error h \<le> now - 300
      then (if post_to_slack h
            then (case post of
                    Posted \<Rightarrow>
                      (h\<lparr>last_error := now',
                         slack_posts := slack_posts h
                           @ [(slack_url h, ''Something went wrong: '' @ err)]\<rparr>, Inr None)
                  | PostRaises \<Rightarrow> (h\<lparr>last_error := now'\<rparr>, Inl RequestException))
            else (h\<lparr>last_error := now'\<rparr>, Inr None))
      else (h, Inr None))
   \<and> (slack_posts (fst (write_to_db h outcome post now now' path sql row)) \<noteq> slack_posts h
        \<longrightarrow> list_all (\<lambda>call. check_time call < now' + 300) calls
        \<longrightarrow> slack_posts (write_all (fst (write_to_db h outcome post now now' path sql row)) calls)
            = slack_posts (fst (write_to_db h outcome post now now' path sql row)))
   \<and> (\<not> post_to_slack h \<longrightarrow> slack_posts (write_all h calls) = slack_posts h)"
proof (intro conjI impI)
  show "write_to_db h (SqlError err) post now now' path sql row =
     (if \<not> str_in ''database is locked'' err \<and> \<not> str_in ''UNIQUE'' err
         \<and> last_error h \<le> now - 300
      then (if post_to_slack h
            then (case post of
                    Posted \<Rightarrow>
                      (h\<lparr>last_error := now',
                         slack_posts := slack_posts h
                           @ [(slack_url h, ''Something went wrong: '' @ err)]\<rparr>, Inr None)
                  | PostRaises \<Rightarrow> (h\<lparr>last_error := now'\<rparr>, Inl RequestException))
            else (h\<lparr>last_error := now'\<rparr>, Inr None))
      else (h, Inr None))"
    by (rule write_to_db_sql_error)
next
  let ?h = "fst (write_to_db h outcome post now now' path sql row)"
  assume "slack_posts ?h \<noteq> slack_posts h"
    and calls: "list_all (\<lambda>call. check_time call < now' + 300) calls"
  then have "last_error ?h = now'" using write_to_db_posts by blast
  then show "slack_posts (write_all ?h calls) = slack_posts ?h"
    using write_all_quiet[of ?h calls] calls by simp
next
  assume "\<not> post_to_slack h"
  then show "slack_posts (write_all h calls) = slack_posts h"
    using write_all_flag_off by blast
qed

theorem sink_error_notification_witness:
  "slack_posts (fst (write_to_db posting_handler (SqlError ''disk I/O error'') Posted 1000 1001
                      ''tickers.db'' ticker_sql None))
     = [(''https://hooks.example/T0'', ''Something went wrong: disk I/O error'')]
   \<and> slack_posts (write_all
        (fst (write_to_db posting_handler (SqlError ''disk I/O error'') Posted 1000 1001
               ''tickers.db'' ticker_sql None))
        [(SqlError ''disk I/O error'', Posted, 1100, 1100, ''tickers.db'', ticker_sql, None),
         (SqlError ''no such table: tickers'', Posted, 1300, 1300, ''tickers.db'', ticker_sql, None)])
     = [(''https://hooks.example/T0'', ''Something went wrong: disk I/O error'')]
   \<and> slack_posts (write_all (posting_handler\<lparr>post_to_slack := False\<rparr>)
        [(SqlError ''disk I/O error'', Posted, 1100, 1100, ''tickers.db'', ticker_sql, None)])
     = []"
  using sink_error_notification[of posting_handler "''disk I/O error''" Posted 1000 1001
      "''tickers.db''" ticker_sql None "SqlError ''disk I/O error''"
      "[(SqlError ''disk I/O error'', Posted, 1100, 1100, ''tickers.db'', ticker_sql, None),
        (SqlError ''no such table: tickers'', Posted, 1300, 1300, ''tickers.db'', ticker_sql, None)]"]
    sink_error_notification[of "posting_handler\<lparr>post_to_slack := False\<rparr>" "''x''" Posted 0 0
      "''x''" "''x''" None "SqlError ''x''"
      "[(SqlError ''disk I/O error'', Posted, 1100, 1100, ''tickers.db'', ticker_sql, None)]"]
  by (simp add: posting_handler_def check_time_def write_to_db_sql_error)

section \<open>Prices below one cent\<close>

lemma update_volume_at:
  assumes "valid_order b price volume" "to_float price = Some p" "to_float volume = Some v"
    and "py_int (binary64 (p * 100)) = k"
  shows "update_volume b price volume =
     (case py_set (volume_seg_tree b) (int (price_points b) + k - 1) v of
        Inl e \<Rightarrow> Inl e
      | Inr t \<Rightarrow>
         (case update_parents (nat (int (price_points b) + k - 1)) t of
            Inl e \<Rightarrow> Inl e
          | Inr t' \<Rightarrow> Inr (b\<lparr>volume_seg_tree := t'\<rparr>)))"
  using assms by (simp add: update_volume_def Let_def)

lemma book_cap1:
  "new_order_book 1 ''BTC-USD'' =
     Inr \<lparr>market_price = 0, price_cap = 1, price_points = 100,
          volume_seg_tree = replicate 200 0, currency = ''BTC-USD''\<rparr>"
proof -
  have "binary64 100 = 100" by code_simp
  then show ?thesis by (simp add: new_order_book_def currencies_def py_int_def)
qed





section \<open>Float drift of the leaf position\<close>

lemma get_volume_in_range_at:
  assumes "valid_price b lo" "valid_price b (Num hi)" "to_float lo = Some l"
    and "py_int (binary64 (binary64 (binary64 (l * 100) - 1) + of_nat (price_points b))) = L"
    and "py_int (binary64 (binary64 (binary64 (binary64 (binary64 hi + binary64 (1 / 100)) * 100)
            - 1) + of_nat (price_points b))) = R"
  shows "get_volume_in_range b lo (Num hi) = sum_loop (volume_seg_tree b) L R 0"
  using assms(1,2,3) unfolding get_volume_in_range_def Let_def
  by (simp add: assms(4,5))

lemma text_29_cents: "decimal_text ''0.29'' = Some (29 / 100)"
  by code_simp

lemma text_one: "decimal_text ''1.0'' = Some 1"
  by code_simp

lemma index_29_cents: "py_int (binary64 (binary64 (29 / 100) * 100)) = 28"
proof -
  have s1: "binary64 (29 / 100) = 5224175567749775 / 18014398509481984" by code_simp
  have s2: "binary64 ((5224175567749775 / 18014398509481984) * 100) = 8162774324609023 / 281474976710656" by code_simp
  show ?thesis
    apply (subst s1)
    apply (subst s2)
    by code_simp
qed

lemma left_index_29_cents: "py_int (binary64 (binary64 (binary64 (binary64 (29 / 100) * 100) - 1) + 100)) = 128"
proof -
  have s1: "binary64 (29 / 100) = 5224175567749775 / 18014398509481984" by code_simp
  have s2: "binary64 ((5224175567749775 / 18014398509481984) * 100) = 8162774324609023 / 281474976710656" by code_simp
  have s3: "binary64 ((8162774324609023 / 281474976710656) - 1) = 7881299347898367 / 281474976710656" by code_simp
  have s4: "binary64 ((7881299347898367 / 281474976710656) + 100) = 128" by code_simp
  show ?thesis
    apply (subst s1)
    apply (subst s2)
    apply (subst s3)
    apply (subst s4)
    by code_simp
qed

lemma right_index_29_cents: "py_int (binary64 (binary64 (binary64 (binary64 (binary64 (29 / 100) + binary64 (1 / 100)) * 100) - 1) + 100)) = 129"
proof -
  have s1: "binary64 (29 / 100) = 5224175567749775 / 18014398509481984" by code_simp
  have s2: "binary64 (1 / 100) = 5764607523034235 / 576460752303423488" by code_simp
  have s3: "binary64 ((5224175567749775 / 18014398509481984) + (5764607523034235 / 576460752303423488)) = 5404319552844595 / 18014398509481984" by code_simp
  have s4: "binary64 ((5404319552844595 / 18014398509481984) * 100) = 30" by code_simp
  have s5: "binary64 (30 - 1) = 29" by code_simp
  have s6: "binary64 (29 + 100) = 129" by code_simp
  show ?thesis
    apply (subst s1)
    apply (subst s2)
    apply (subst s3)
    apply (subst s4)
    apply (subst s5)
    apply (subst s6)
    by code_simp
qed

lemma valid_29_cents:
  "valid_price \<lparr>market_price = m, price_cap = 1, price_points = 100,
          volume_seg_tree = t, currency = c\<rparr> (Text (Some (29 / 100)))"
  "valid_price \<lparr>market_price = m, price_cap = 1, price_points = 100,
          volume_seg_tree = t, currency = c\<rparr> (Num (29 / 100))"
  "valid_volume (Text (Some 1))"
proof -
  have s1: "binary64 (29 / 100) = 5224175567749775 / 18014398509481984" by code_simp
  have s2: "binary64 1 = 1" by code_simp
  show "valid_price \<lparr>market_price = m, price_cap = 1, price_points = 100,
          volume_seg_tree = t, currency = c\<rparr> (Text (Some (29 / 100)))"
    "valid_price \<lparr>market_price = m, price_cap = 1, price_points = 100,
          volume_seg_tree = t, currency = c\<rparr> (Num (29 / 100))"
    "valid_volume (Text (Some 1))"
    by (simp_all add: valid_price_def valid_volume_def valid_number_def price_under_cap_def s1 s2)
qed

lemma tree_29_cents:
  "(case update_parents 127 ((replicate 200 (0::rat))[127 := 1]) of
      Inl e \<Rightarrow> False
    | Inr t' \<Rightarrow> drop 100 t' ! 27 = 1 \<and> drop 100 t' ! 28 = 0 \<and> sum_loop t' 128 129 0 = Inr 0)"
  by code_simp

text \<open>
  Claim C7. On a book with cap 1, the price string \<open>"0.29"\<close> denotes 29 cents, but
  \<open>float("0.29") * 100\<close> is \<open>28.999999999999996\<close> and \<open>int\<close> cuts it to 28: both
  \<open>update_volume\<close> and \<open>__gen_vol_array\<close> store the volume at leaf position 27, the
  position of 28 cents, and leave position 28 empty. \<open>get_volume_in_range(0.29, 0.29)\<close>,
  which rounds to the index of position 28, returns 0 after the update.
\<close>

theorem price_29_cents_stored_at_28_cents:
  "(case new_order_book 1 ''BTC-USD'' of
      Inl e \<Rightarrow> Inl e
    | Inr b \<Rightarrow>
       (case update_volume b (Text (decimal_text ''0.29'')) (Text (decimal_text ''1.0'')) of
          Inl e \<Rightarrow> Inl e
        | Inr b' \<Rightarrow>
           (case gen_vol_array b [(Text (decimal_text ''0.29''), Text (decimal_text ''1.0''))] [] of
              Inl e \<Rightarrow> Inl e
            | Inr volumes \<Rightarrow>
               (case get_volume_in_range b' (Num (29 / 100)) (Num (29 / 100)) of
                  Inl e \<Rightarrow> Inl e
                | Inr found \<Rightarrow>
                    Inr (leaves b' ! 27, leaves b' ! 28, volumes ! 27, volumes ! 28, found)))))
   = Inr (1, 0, 1, 0, 0)"
proof -
  let ?b = "\<lparr>market_price = 0, price_cap = 1, price_points = 100,
             volume_seg_tree = replicate 200 0, currency = ''BTC-USD''\<rparr>"
  let ?p = "Text (Some (29 / 100))"
  let ?v = "Text (Some 1)"
  have valid: "valid_order ?b ?p ?v"
    using valid_29_cents(1,3) by (simp add: valid_order_def)
  have one: "binary64 1 = 1" by code_simp
  have set: "py_set (replicate 200 (0::rat)) 127 1 = Inr ((replicate 200 0)[127 := 1])"
    by (simp add: py_set_def py_index_def)
  obtain t' where t': "update_parents 127 ((replicate 200 (0::rat))[127 := 1]) = Inr t'"
    "drop 100 t' ! 27 = 1" "drop 100 t' ! 28 = 0" "sum_loop t' 128 129 0 = Inr 0"
    using tree_29_cents by (auto split: sum.splits)
  let ?b' = "?b\<lparr>volume_seg_tree := t'\<rparr>"
  have upd: "update_volume ?b ?p ?v = Inr ?b'"
    using update_volume_at[OF valid, of "binary64 (29 / 100)" 1 28] index_29_cents
    by (simp add: one set t'(1))
  have gen: "gen_vol_array ?b [(?p, ?v)] [] = Inr ((replicate 100 0)[27 := 1])"
    using valid index_29_cents
    by (simp add: gen_vol_array_def one py_set_def py_index_def)
  have "get_volume_in_range ?b' (Num (29 / 100)) (Num (29 / 100)) = sum_loop t' 128 129 0"
    using get_volume_in_range_at[of ?b' "Num (29 / 100)" "29 / 100" "binary64 (29 / 100)" 128 129]
      valid_29_cents(2) left_index_29_cents right_index_29_cents
    by simp
  then have rng: "get_volume_in_range ?b' (Num (29 / 100)) (Num (29 / 100)) = Inr 0"
    using t'(4) by simp
  show ?thesis
    using t'(2,3)
    by (simp add: book_cap1 text_29_cents text_one upd gen rng[simplified] leaves_def)
qed

section \<open>The total volume and the price cap\<close>

lemma get_total_volume_at:
  assumes "valid_price b (Num (binary64 (1 / 100)))"
    and "valid_price b (Num (binary64 (binary64 (price_cap b) - binary64 (1 / 100))))"
    and "py_int (binary64 (binary64 (binary64 (binary64 (binary64 (1 / 100)) * 100) - 1)
            + of_nat (price_points b))) = L"
    and "py_int (binary64 (binary64 (binary64 (binary64 (binary64 (binary64
            (binary64 (price_cap b) - binary64 (1 / 100))) + binary64 (1 / 100)) * 100) - 1)
            + of_nat (price_points b))) = R"
  shows "get_total_volume b = sum_loop (volume_seg_tree b) L R 0"
  unfolding get_total_volume_def
  by (rule get_volume_in_range_at[OF assms(1,2) _ assms(3,4)]) simp

lemma index_50_cents: "py_int (binary64 (binary64 (1 / 2) * 100)) = 50"
proof -
  have s1: "binary64 (1 / 2) = 1 / 2" by code_simp
  have s2: "binary64 ((1 / 2) * 100) = 50" by code_simp
  show ?thesis
    apply (subst s1)
    apply (subst s2)
    by code_simp
qed

lemma index_100_cents: "py_int (binary64 (binary64 (1) * 100)) = 100"
proof -
  have s1: "binary64 (1) = 1" by code_simp
  have s2: "binary64 (1 * 100) = 100" by code_simp
  show ?thesis
    apply (subst s1)
    apply (subst s2)
    by code_simp
qed

lemma float_one_cent: "binary64 (binary64 (1 / 100)) = 5764607523034235 / 576460752303423488"
proof -
  have s1: "binary64 (1 / 100) = 5764607523034235 / 576460752303423488" by code_simp
  have s2: "binary64 (5764607523034235 / 576460752303423488) = 5764607523034235 / 576460752303423488" by code_simp
  show ?thesis
    apply (subst s1)
    apply (subst s2)
    by code_simp
qed

lemma float_cap1_less_cent: "binary64 (binary64 (binary64 (1) - binary64 (1 / 100))) = 4458563631096791 / 4503599627370496"
proof -
  have s1: "binary64 (1) = 1" by code_simp
  have s2: "binary64 (1 / 100) = 5764607523034235 / 576460752303423488" by code_simp
  have s3: "binary64 (1 - (5764607523034235 / 576460752303423488)) = 4458563631096791 / 4503599627370496" by code_simp
  have s4: "binary64 (4458563631096791 / 4503599627370496) = 4458563631096791 / 4503599627370496" by code_simp
  show ?thesis
    apply (subst s1)
    apply (subst s2)
    apply (subst s3)
    apply (subst s4)
    by code_simp
qed

lemma total_left_cap1: "py_int (binary64 (binary64 (binary64 (binary64 (binary64 (1 / 100)) * 100) - 1) + 100)) = 100"
proof -
  have s1: "binary64 (1 / 100) = 5764607523034235 / 576460752303423488" by code_simp
  have s2: "binary64 (5764607523034235 / 576460752303423488) = 5764607523034235 / 576460752303423488" by code_simp
  have s3: "binary64 ((5764607523034235 / 576460752303423488) * 100) = 1" by code_simp
  have s4: "binary64 (1 - 1) = 0" by code_simp
  have s5: "binary64 (0 + 100) = 100" by code_simp
  show ?thesis
    apply (subst s1)
    apply (subst s2)
    apply (subst s3)
    apply (subst s4)
    apply (subst s5)
    by code_simp
qed

lemma total_right_cap1: "py_int (binary64 (binary64 (binary64 (binary64 (binary64 (binary64 (binary64 (1) - binary64 (1 / 100))) + binary64 (1 / 100)) * 100) - 1) + 100)) = 199"
proof -
  have s1: "binary64 (1) = 1" by code_simp
  have s2: "binary64 (1 / 100) = 5764607523034235 / 576460752303423488" by code_simp
  have s3: "binary64 (1 - (5764607523034235 / 576460752303423488)) = 4458563631096791 / 4503599627370496" by code_simp
  have s4: "binary64 (4458563631096791 / 4503599627370496) = 4458563631096791 / 4503599627370496" by code_simp
  have s5: "binary64 ((4458563631096791 / 4503599627370496) + (5764607523034235 / 576460752303423488)) = 1" by code_simp
  have s6: "binary64 (1 * 100) = 100" by code_simp
  have s7: "binary64 (100 - 1) = 99" by code_simp
  have s8: "binary64 (99 + 100) = 199" by code_simp
  show ?thesis
    apply (subst s1)
    apply (subst s2)
    apply (subst s3)
    apply (subst s4)
    apply (subst s2)
    apply (subst s5)
    apply (subst s6)
    apply (subst s7)
    apply (subst s8)
    by code_simp
qed

lemma left_one_cent_cap1: "py_int (binary64 (binary64 (binary64 (binary64 (1 / 100) * 100) - 1) + 100)) = 100"
proof -
  have s1: "binary64 (1 / 100) = 5764607523034235 / 576460752303423488" by code_simp
  have s2: "binary64 ((5764607523034235 / 576460752303423488) * 100) = 1" by code_simp
  have s3: "binary64 (1 - 1) = 0" by code_simp
  have s4: "binary64 (0 + 100) = 100" by code_simp
  show ?thesis
    apply (subst s1)
    apply (subst s2)
    apply (subst s3)
    apply (subst s4)
    by code_simp
qed

lemma right_cap_cap1: "py_int (binary64 (binary64 (binary64 (binary64 (binary64 (1) + binary64 (1 / 100)) * 100) - 1) + 100)) = 200"
proof -
  have s1: "binary64 (1) = 1" by code_simp
  have s2: "binary64 (1 / 100) = 5764607523034235 / 576460752303423488" by code_simp
  have s3: "binary64 (1 + (5764607523034235 / 576460752303423488)) = 4548635623644201 / 4503599627370496" by code_simp
  have s4: "binary64 ((4548635623644201 / 4503599627370496) * 100) = 101" by code_simp
  have s5: "binary64 (101 - 1) = 100" by code_simp
  have s6: "binary64 (100 + 100) = 200" by code_simp
  show ?thesis
    apply (subst s1)
    apply (subst s2)
    apply (subst s3)
    apply (subst s4)
    apply (subst s5)
    apply (subst s6)
    by code_simp
qed

lemma texts_cap1:
  "decimal_text ''1.00'' = Some 1" "decimal_text ''0.50'' = Some (1 / 2)"
  "decimal_text ''2.0'' = Some 2"
  by code_simp+

lemma floats_cap1: "binary64 1 = 1" "binary64 (1 / 2) = 1 / 2" "binary64 2 = 2"
  by code_simp+

lemma valid_cap1:
  fixes b :: order_book
  assumes "price_cap b = 1"
  shows "valid_price b (Text (Some 1))" "valid_price b (Text (Some (1 / 2)))"
    "valid_price b (Num (1 / 100))" "valid_price b (Num 1)"
    "valid_price b (Num (binary64 (1 / 100)))"
    "valid_price b (Num (binary64 (binary64 1 - binary64 (1 / 100))))"
proof -
  have c: "binary64 (1 / 100) = 5764607523034235 / 576460752303423488" by code_simp
  note f = floats_cap1 float_one_cent float_cap1_less_cent
  show "valid_price b (Text (Some 1))" "valid_price b (Text (Some (1 / 2)))"
    "valid_price b (Num 1)"
    by (simp_all add: valid_price_def valid_number_def price_under_cap_def assms f)
  show "valid_price b (Num (1 / 100))"
    by (simp add: valid_price_def valid_number_def price_under_cap_def assms c)
  show "valid_price b (Num (binary64 (1 / 100)))"
    unfolding valid_price_def valid_number_def price_under_cap_def to_float.simps assms
    by (simp add: float_one_cent)
  show "valid_price b (Num (binary64 (binary64 1 - binary64 (1 / 100))))"
    unfolding valid_price_def valid_number_def price_under_cap_def to_float.simps assms
    by (simp add: float_cap1_less_cent)
qed

lemma valid_volumes: "valid_volume (Text (Some 1))" "valid_volume (Text (Some 2))"
  by (simp_all add: valid_volume_def valid_number_def floats_cap1)

lemma tree_cap_price_only:
  "(case update_parents 199 ((replicate 200 (0::rat))[199 := 1]) of
      Inl e \<Rightarrow> False
    | Inr t' \<Rightarrow> t' ! 1 = 1 \<and> sum_loop t' 100 199 0 = Inr 0)"
  by code_simp

lemma tree_cap_price_and_below:
  "(case update_parents 149 ((replicate 200 (0::rat))[149 := 2]) of
      Inl e \<Rightarrow> False
    | Inr t1 \<Rightarrow>
       (case update_parents 199 (t1[199 := 1]) of
          Inl e \<Rightarrow> False
        | Inr t2 \<Rightarrow> length t1 = 200 \<and> t2 ! 1 = 3 \<and> sum_loop t2 100 199 0 = Inr 2
                    \<and> sum_loop t2 100 200 0 = Inr 3))"
  by code_simp

lemma update_cap1:
  fixes t :: "rat list"
  assumes "length t = 200" "to_float price = Some p" "to_float volume = Some v"
    and "valid_price \<lparr>market_price = m, price_cap = 1, price_points = 100,
            volume_seg_tree = t, currency = c\<rparr> price" "valid_volume volume"
    and "py_int (binary64 (p * 100)) = int k" "1 \<le> k" "k \<le> 100"
    and "update_parents (99 + k) (t[99 + k := v]) = Inr t'"
  shows "update_volume \<lparr>market_price = m, price_cap = 1, price_points = 100,
            volume_seg_tree = t, currency = c\<rparr> price volume
         = Inr \<lparr>market_price = m, price_cap = 1, price_points = 100,
                volume_seg_tree = t', currency = c\<rparr>"
proof -
  let ?b = "\<lparr>market_price = m, price_cap = 1, price_points = 100,
            volume_seg_tree = t, currency = c\<rparr>"
  have valid: "valid_order ?b price volume" using assms(4,5) by (simp add: valid_order_def)
  have idx: "int (price_points ?b) + int k - 1 = int (99 + k)" using assms(7) by simp
  have "py_set t (int (99 + k)) v = Inr (t[99 + k := v])"
    using assms(1,8) by (intro py_set_nat) simp
  then have set: "py_set t (99 + int k) v = Inr (t[99 + k := v])" by simp
  have n: "nat (99 + int k) = 99 + k" by simp
  show ?thesis
    by (simp add: update_volume_at[OF valid assms(2,3,6)] set n assms(9))
qed

text \<open>
  Claim C6. On a book with cap 1, after \<open>update_volume("1.00", "1.0")\<close> the root
  \<open>tree[1]\<close> is 1, but \<open>built()\<close> is False: \<open>get_total_volume\<close> sums the range from
  0.01 to \<open>price_cap - 0.01\<close>, which leaves the leaf of the price \<open>price_cap\<close> out.
\<close>

theorem built_misses_volume_at_cap:
  "(case new_order_book 1 ''BTC-USD'' of
      Inl e \<Rightarrow> Inl e
    | Inr b \<Rightarrow>
       (case update_volume b (Text (decimal_text ''1.00'')) (Text (decimal_text ''1.0'')) of
          Inl e \<Rightarrow> Inl e
        | Inr b' \<Rightarrow>
           (case built b' of
              Inl e \<Rightarrow> Inl e
            | Inr r \<Rightarrow> Inr (volume_seg_tree b' ! 1, r))))
   = Inr (1, False)"
proof -
  let ?b = "\<lparr>market_price = 0, price_cap = 1, price_points = 100,
             volume_seg_tree = replicate 200 0, currency = ''BTC-USD''\<rparr>"
  obtain t' where t': "update_parents 199 ((replicate 200 (0::rat))[199 := 1]) = Inr t'"
    "t' ! 1 = 1" "sum_loop t' 100 199 0 = Inr 0"
    using tree_cap_price_only by (auto split: sum.splits)
  let ?b' = "\<lparr>market_price = 0, price_cap = 1, price_points = 100,
             volume_seg_tree = t', currency = ''BTC-USD''\<rparr>"
  have upd: "update_volume ?b (Text (Some 1)) (Text (Some 1)) = Inr ?b'"
    using t'(1) index_100_cents
    by (intro update_cap1[where k = 100 and p = "binary64 1" and v = 1])
       (simp_all add: valid_cap1 valid_volumes floats_cap1)
  have "get_total_volume ?b' = sum_loop (volume_seg_tree ?b') 100 199 0"
    using total_left_cap1 total_right_cap1
    by (intro get_total_volume_at) (simp_all add: valid_cap1)
  then have "built ?b' = Inr False" using t'(3) by (simp add: built_def)
  then show ?thesis
    using t'(2) by (simp add: book_cap1 texts_cap1 text_one upd)
qed

text \<open>
  Claim C5. On a book with cap 1, after \<open>update_volume("0.50", "2.0")\<close> and
  \<open>update_volume("1.00", "1.0")\<close> the book is built, the root \<open>tree[1]\<close> is 3 and the
  range from 0.01 to the cap 1.00 sums to 3, but \<open>get_total_volume()\<close> is 2: it sums
  the range from 0.01 to \<open>price_cap - 0.01\<close>, which leaves the leaf of the price
  \<open>price_cap\<close> out.
\<close>

theorem total_volume_misses_volume_at_cap:
  "(case new_order_book 1 ''BTC-USD'' of
      Inl e \<Rightarrow> Inl e
    | Inr b \<Rightarrow>
       (case update_volume b (Text (decimal_text ''0.50'')) (Text (decimal_text ''2.0'')) of
          Inl e \<Rightarrow> Inl e
        | Inr b1 \<Rightarrow>
           (case update_volume b1 (Text (decimal_text ''1.00'')) (Text (decimal_text ''1.0'')) of
              Inl e \<Rightarrow> Inl e
            | Inr b2 \<Rightarrow>
               (case built b2 of
                  Inl e \<Rightarrow> Inl e
                | Inr r \<Rightarrow>
                   (case get_total_volume b2 of
                      Inl e \<Rightarrow> Inl e
                    | Inr total_volume \<Rightarrow>
                       (case get_volume_in_range b2 (Num (1 / 100)) (Num (price_cap b2)) of
                          Inl e \<Rightarrow> Inl e
                        | Inr whole \<Rightarrow>
                            Inr (r, total_volume, volume_seg_tree b2 ! 1, whole)))))))
   = Inr (True, 2, 3, 3)"
proof -
  let ?b = "\<lparr>market_price = 0, price_cap = 1, price_points = 100,
             volume_seg_tree = replicate 200 0, currency = ''BTC-USD''\<rparr>"
  obtain t1 t2 where t: "update_parents 149 ((replicate 200 (0::rat))[149 := 2]) = Inr t1"
    "update_parents 199 (t1[199 := 1]) = Inr t2" "length t1 = 200"
    "t2 ! 1 = 3" "sum_loop t2 100 199 0 = Inr 2" "sum_loop t2 100 200 0 = Inr 3"
    using tree_cap_price_and_below by (auto split: sum.splits)
  let ?b1 = "\<lparr>market_price = 0, price_cap = 1, price_points = 100,
             volume_seg_tree = t1, currency = ''BTC-USD''\<rparr>"
  let ?b2 = "\<lparr>market_price = 0, price_cap = 1, price_points = 100,
             volume_seg_tree = t2, currency = ''BTC-USD''\<rparr>"
  have upd1: "update_volume ?b (Text (Some (1 / 2))) (Text (Some 2)) = Inr ?b1"
    using t(1) index_50_cents
    by (intro update_cap1[where k = 50 and p = "binary64 (1 / 2)" and v = 2])
       (simp_all add: valid_cap1 valid_volumes floats_cap1)
  have upd2: "update_volume ?b1 (Text (Some 1)) (Text (Some 1)) = Inr ?b2"
    using t(2,3) index_100_cents
    by (intro update_cap1[where k = 100 and p = "binary64 1" and v = 1])
       (simp_all add: valid_cap1 valid_volumes floats_cap1)
  have "get_total_volume ?b2 = sum_loop (volume_seg_tree ?b2) 100 199 0"
    using total_left_cap1 total_right_cap1
    by (intro get_total_volume_at) (simp_all add: valid_cap1)
  then have total: "get_total_volume ?b2 = Inr 2" using t(5) by simp
  have "get_volume_in_range ?b2 (Num (1 / 100)) (Num 1)
        = sum_loop (volume_seg_tree ?b2) 100 200 0"
    using left_one_cent_cap1 right_cap_cap1
    by (intro get_volume_in_range_at[where l = "binary64 (1 / 100)"]) (simp_all add: valid_cap1)
  then have whole: "get_volume_in_range ?b2 (Num (1 / 100)) (Num 1) = Inr 3" using t(6) by simp
  show ?thesis
    using t(4) by (simp add: book_cap1 texts_cap1 text_one upd1 upd2 built_def total whole)
qed

section \<open>Queries before a market price is set\<close>




lemma index_one_cent: "py_int (binary64 (binary64 (1 / 100) * 100)) = 1"
proof -
  have s1: "binary64 (1 / 100) = 5764607523034235 / 576460752303423488" by code_simp
  have s2: "binary64 ((5764607523034235 / 576460752303423488) * 100) = 1" by code_simp
  show ?thesis
    apply (subst s1)
    apply (subst s2)
    by code_simp
qed







lemma tiny_book_reached:
  "(case new_order_book (1 / 50) ''BTC-USD'' of
      Inl e \<Rightarrow> Inl e
    | Inr b \<Rightarrow> init_book b [(Text (decimal_text ''0.01''), Text (decimal_text ''1.0''))] [])
   = Inr tiny_book"
proof -
  let ?b = "\<lparr>market_price = 0, price_cap = 1 / 50, price_points = 2,
             volume_seg_tree = replicate 4 0, currency = ''BTC-USD''\<rparr>"
  have two: "binary64 2 = 2" by code_simp
  have new: "new_order_book (1 / 50) ''BTC-USD'' = Inr ?b"
    by (simp add: new_order_book_def currencies_def py_int_def two)
  have dt: "decimal_text ''0.01'' = Some (1 / 100)" by code_simp
  have c: "binary64 (1 / 100) = 5764607523034235 / 576460752303423488" by code_simp
  have valid: "valid_order ?b (Text (Some (1 / 100))) (Text (Some 1))"
    by (simp add: valid_order_def valid_price_def valid_volume_def valid_number_def
        price_under_cap_def c floats_cap1)
  have gen: "gen_vol_array ?b [(Text (Some (1 / 100)), Text (Some 1))] [] = Inr [1, 0]"
    using valid index_one_cent
    by (simp add: gen_vol_array_def floats_cap1 py_set_def py_index_def numeral_2_eq_2)
  have "build_order_book ?b [1, 0] = Inr tiny_book"
    unfolding tiny_book_def by code_simp
  then show ?thesis
    by (simp add: new dt text_one init_book_def gen)
qed

section \<open>Float drift of the range bounds\<close>









section \<open>The scenario with a market price\<close>

lemma index_100_dollars: "py_int (binary64 (binary64 (100) * 100)) = 10000"
proof -
  have s1: "binary64 (100) = 100" by code_simp
  have s2: "binary64 (100 * 100) = 10000" by code_simp
  show ?thesis
    apply (subst s1)
    apply (subst s2)
    by code_simp
qed

lemma index_9950_cents: "py_int (binary64 (binary64 (199 / 2) * 100)) = 9950"
proof -
  have s1: "binary64 (199 / 2) = 199 / 2" by code_simp
  have s2: "binary64 ((199 / 2) * 100) = 9950" by code_simp
  show ?thesis
    apply (subst s1)
    apply (subst s2)
    by code_simp
qed

lemma index_10050_cents: "py_int (binary64 (binary64 (201 / 2) * 100)) = 10050"
proof -
  have s1: "binary64 (201 / 2) = 201 / 2" by code_simp
  have s2: "binary64 ((201 / 2) * 100) = 10050" by code_simp
  show ?thesis
    apply (subst s1)
    apply (subst s2)
    by code_simp
qed

lemma left_index_100_dollars: "py_int (binary64 (binary64 (binary64 (binary64 (100) * 100) - 1) + 20000)) = 29999"
proof -
  have s1: "binary64 (100) = 100" by code_simp
  have s2: "binary64 (100 * 100) = 10000" by code_simp
  have s3: "binary64 (10000 - 1) = 9999" by code_simp
  have s4: "binary64 (9999 + 20000) = 29999" by code_simp
  show ?thesis
    apply (subst s1)
    apply (subst s2)
    apply (subst s3)
    apply (subst s4)
    by code_simp
qed

lemma right_index_10050_cents: "py_int (binary64 (binary64 (binary64 (binary64 (binary64 (201 / 2) + binary64 (1 / 100)) * 100) - 1) + 20000)) = 30050"
proof -
  have s1: "binary64 (201 / 2) = 201 / 2" by code_simp
  have s2: "binary64 (1 / 100) = 5764607523034235 / 576460752303423488" by code_simp
  have s3: "binary64 ((201 / 2) + (5764607523034235 / 576460752303423488)) = 7072762477297009 / 70368744177664" by code_simp
  have s4: "binary64 ((7072762477297009 / 70368744177664) * 100) = 10051" by code_simp
  have s5: "binary64 (10051 - 1) = 10050" by code_simp
  have s6: "binary64 (10050 + 20000) = 30050" by code_simp
  show ?thesis
    apply (subst s1)
    apply (subst s2)
    apply (subst s3)
    apply (subst s4)
    apply (subst s5)
    apply (subst s6)
    by code_simp
qed

lemma left_index_9950_cents: "py_int (binary64 (binary64 (binary64 (binary64 (199 / 2) * 100) - 1) + 20000)) = 29949"
proof -
  have s1: "binary64 (199 / 2) = 199 / 2" by code_simp
  have s2: "binary64 ((199 / 2) * 100) = 9950" by code_simp
  have s3: "binary64 (9950 - 1) = 9949" by code_simp
  have s4: "binary64 (9949 + 20000) = 29949" by code_simp
  show ?thesis
    apply (subst s1)
    apply (subst s2)
    apply (subst s3)
    apply (subst s4)
    by code_simp
qed

lemma right_index_100_dollars: "py_int (binary64 (binary64 (binary64 (binary64 (binary64 (100) + binary64 (1 / 100)) * 100) - 1) + 20000)) = 30000"
proof -
  have s1: "binary64 (100) = 100" by code_simp
  have s2: "binary64 (1 / 100) = 5764607523034235 / 576460752303423488" by code_simp
  have s3: "binary64 (100 + (5764607523034235 / 576460752303423488)) = 7037578105208177 / 70368744177664" by code_simp
  have s4: "binary64 ((7037578105208177 / 70368744177664) * 100) = 10001" by code_simp
  have s5: "binary64 (10001 - 1) = 10000" by code_simp
  have s6: "binary64 (10000 + 20000) = 30000" by code_simp
  show ?thesis
    apply (subst s1)
    apply (subst s2)
    apply (subst s3)
    apply (subst s4)
    apply (subst s5)
    apply (subst s6)
    by code_simp
qed

lemma texts_s4:
  "decimal_text ''100.00'' = Some 100" "decimal_text ''1.5'' = Some (3 / 2)"
  "decimal_text ''99.50'' = Some (199 / 2)" "decimal_text ''100.50'' = Some (201 / 2)"
  "decimal_text ''0.5'' = Some (1 / 2)"
  by code_simp+

lemma floats_s4:
  "binary64 100 = 100" "binary64 (199 / 2) = 199 / 2" "binary64 (201 / 2) = 201 / 2"
  "binary64 (3 / 2) = 3 / 2" "binary64 3 = 3" "binary64 20000 = 20000"
  by code_simp+

lemma valid_s4:
  fixes b :: order_book
  assumes "price_cap b = 200"
  shows "valid_price b (Text (Some 100))" "valid_price b (Text (Some (199 / 2)))"
    "valid_price b (Text (Some (201 / 2)))" "valid_price b (Num 100)"
    "valid_price b (Num (201 / 2))" "valid_price b (Num (199 / 2))"
  by (simp_all add: valid_price_def valid_number_def price_under_cap_def assms floats_s4)

lemma valid_volumes_s4:
  "valid_volume (Text (Some (3 / 2)))" "valid_volume (Text (Some (1 / 2)))" "valid_volume (Num 3)"
  by (simp_all add: valid_volume_def valid_number_def floats_s4 floats_cap1)

lemma s4_sell_band: "s4_sell_vol = Inr (100, 7 / 2, [5], [7 / 2])"
proof -
  obtain b where b: "new_order_book 200 ''BTC-USD'' = Inr b"
    by (simp add: new_order_book_def currencies_def Let_def)
  note nb = new_order_book_ok[OF b]
  have wf: "wf_book b" and so: "sums_ok (price_points b) (volume_seg_tree b)"
    and lv: "leaves b = replicate (price_points b) 0" and cap: "price_cap b = 200"
    using nb by blast+
  have n: "price_points b = 20000"
    using nb by (simp add: floats_s4 py_int_def)
  have big: "10050 \<le> price_points b" using n by simp
  let ?bids = "[(Text (Some 100), Text (Some (3 / 2))), (Text (Some (199 / 2)), Text (Some 2))]"
  let ?asks = "[(Text (Some (201 / 2)), Text (Some (1 / 2)))]"
  define vs where "vs = (replicate (price_points b) (0::rat))[9999 := 3 / 2, 9949 := 2, 10049 := 1 / 2]"
  have len: "length vs = price_points b" by (simp add: vs_def)
  have s1: "py_set (replicate (price_points b) (0::rat)) 9999 (3 / 2)
            = Inr ((replicate (price_points b) 0)[9999 := 3 / 2])"
    using big py_set_nat[of 9999 "replicate (price_points b) (0::rat)" "3 / 2"] by simp
  have s2: "py_set ((replicate (price_points b) (0::rat))[9999 := 3 / 2]) 9949 2
            = Inr ((replicate (price_points b) 0)[9999 := 3 / 2, 9949 := 2])"
    using big py_set_nat[of 9949 "(replicate (price_points b) (0::rat))[9999 := 3 / 2]" 2] by simp
  have s3: "py_set ((replicate (price_points b) (0::rat))[9999 := 3 / 2, 9949 := 2]) 10049 (1 / 2)
            = Inr vs"
    using big py_set_nat[of 10049 "(replicate (price_points b) (0::rat))[9999 := 3 / 2, 9949 := 2]" "1 / 2"]
    by (simp add: vs_def)
  have gen: "gen_vol_array b ?bids ?asks = Inr vs"
    using index_100_dollars index_9950_cents index_10050_cents
    by (simp add: gen_vol_array_def valid_order_def valid_s4[OF cap] valid_volumes_s4 valid_volumes
        floats_s4 floats_cap1 s1 s2 s3)
  obtain t1 where t1: "init_book b ?bids ?asks = Inr (b\<lparr>volume_seg_tree := t1\<rparr>)"
    "wf_book (b\<lparr>volume_seg_tree := t1\<rparr>)" "sums_ok (price_points b) t1"
    "leaves (b\<lparr>volume_seg_tree := t1\<rparr>) = vs"
    using init_book_ok[OF wf gen len] by blast
  let ?b1 = "b\<lparr>volume_seg_tree := t1\<rparr>"
  have cap1: "price_cap ?b1 = 200" using cap by simp
  have "\<exists>t'. update_volume ?b1 (Text (Some 100)) (Num 3) = Inr (?b1\<lparr>volume_seg_tree := t'\<rparr>)
            \<and> wf_book (?b1\<lparr>volume_seg_tree := t'\<rparr>) \<and> sums_ok (price_points ?b1) t'
            \<and> leaves (?b1\<lparr>volume_seg_tree := t'\<rparr>) = (leaves ?b1)[10000 - 1 := 3]"
    using t1(2,3) index_100_dollars big
    by (intro update_volume_ok[where p = "binary64 100"])
       (simp_all add: valid_order_def valid_s4[OF cap1] valid_volumes_s4 floats_s4)
  then obtain t2 where t2: "update_volume ?b1 (Text (Some 100)) (Num 3) = Inr (b\<lparr>volume_seg_tree := t2\<rparr>)"
    "wf_book (b\<lparr>volume_seg_tree := t2\<rparr>)" "sums_ok (price_points b) t2"
    "leaves (b\<lparr>volume_seg_tree := t2\<rparr>) = vs[9999 := 3]"
    using t1(4) by auto
  let ?b2 = "b\<lparr>volume_seg_tree := t2\<rparr>"
  let ?b3 = "b\<lparr>market_price := 100, volume_seg_tree := t2\<rparr>"
  have cap2: "price_cap ?b2 = 200" "price_cap ?b3 = 200" using cap by simp_all
  have mp: "update_market_price ?b2 (Text (Some 100)) = Inr ?b3"
    by (simp add: update_market_price_def valid_s4[OF cap2(1)] floats_s4)
  have wf3: "wf_book ?b3" "sums_ok (price_points ?b3) (volume_seg_tree ?b3)"
    "leaves ?b3 = vs[9999 := 3]"
    using t2(2,3,4) by (simp_all add: wf_book_def leaves_def)
  have r1: "get_volume_in_range ?b3 (Num 100) (Num (201 / 2))
        = Inr (\<Sum>k = 29999 - price_points ?b3..<30050 - price_points ?b3. leaves ?b3 ! k)"
    using left_index_100_dollars right_index_10050_cents
    by (intro get_volume_in_range_ok[OF wf3(1,2), where l = "binary64 100"])
       (simp_all add: valid_s4[OF cap2(2)] n)
  have r2: "29999 - price_points ?b3 = 9999" "30050 - price_points ?b3 = 10050"
    using n by simp_all
  have r3: "(\<Sum>k = 9999..<10050. leaves ?b3 ! k) = 7 / 2"
    unfolding wf3(3) vs_def using big
    by (simp add: sum_nth_update sum_nth_replicate)
  have rng: "get_volume_in_range ?b3 (Num 100) (Num (201 / 2)) = Inr (7 / 2)"
    unfolding r1 r2 r3 ..
  have q1: "get_volume_in_range ?b3 (Num (199 / 2)) (Num 100)
        = Inr (\<Sum>k = 29949 - price_points ?b3..<30000 - price_points ?b3. leaves ?b3 ! k)"
    using left_index_9950_cents right_index_100_dollars
    by (intro get_volume_in_range_ok[OF wf3(1,2), where l = "binary64 (199 / 2)"])
       (simp_all add: valid_s4[OF cap2(2)] n)
  have q2: "29949 - price_points ?b3 = 9949" "30000 - price_points ?b3 = 10000"
    using n by simp_all
  have q3: "(\<Sum>k = 9949..<10000. leaves ?b3 ! k) = 5"
    unfolding wf3(3) vs_def using big
    by (simp add: sum_nth_update sum_nth_replicate)
  have buy: "get_volume_in_range ?b3 (Num (199 / 2)) (Num 100) = Inr 5"
    unfolding q1 q2 q3 ..
  have fifty: "binary64 50 = 50" by code_simp
  have bands: "band_loop ?b3 100 [binary64 (1 / 2)] [] [] = Inr ([5], [7 / 2])"
    by (simp add: Let_def floats_s4 floats_cap1 fifty buy rng)
  show ?thesis
    by (simp add: s4_sell_vol_def b texts_s4 texts_cap1 t1(1) t2(1) mp rng bands
        get_market_price_def del: band_loop.simps)
qed

text \<open>
  Claim C4, as stated: in the scenario the range sum from 100.00 to 100.50, which is the
  sell volume of the band of 0.5 percent, is not 0.5.
\<close>

theorem s4_sell_vol_is_not_half: "s4_sell_vol \<noteq> Inr (100, 1 / 2, [5], [1 / 2])"
  by (simp add: s4_sell_band)

text \<open>
  Claim C4, amended. In the scenario the market price is 100, and the range sum from
  100.00 to 100.50 and with it the sell volume of the band of 0.5 percent are 3.5: the
  range is inclusive on both bounds, so it holds the volume 3.0 at the market price
  100.00 and the volume 0.5 at 100.50. The buy volume of the band is 5.0.
\<close>

theorem s4_sell_vol_is_3_5: "s4_sell_vol = Inr (100, 7 / 2, [5], [7 / 2])"
  by (rule s4_sell_band)

end
